theory Spec2Isabelle
  imports Main "HOL-Library.Word" "HOL-Library.Sublist" "HOL-Library.Code_Target_Numeral"
begin

unbundle bit_operations_syntax

section \<open>The text-to-PNG compiler \<open>sngc.c\<close>\<close>

text \<open>
  This theory embeds the compiler of \<open>sngc.c\<close> in HOL. The global variables of the C
  file become the fields of a state record that every function takes and returns; a call
  of \<open>fatal\<close> (which leaves the compile through \<open>longjmp\<close>) becomes the left
  injection of a sum type; every loop of the source is a recursive function.

  What the C file takes from elsewhere is modelled as follows.
  \<^item> The \<open>ctype.h\<close> predicates and \<open>strtoul\<close> are those of the C standard in the
    "C" locale (the program never calls \<open>setlocale\<close>).
  \<^item> The width of \<open>unsigned long\<close> is a parameter, the data model of the platform:
    32 bits (ILP32) or 64 bits (LP64). The program reads and writes the fields of
    \<open>png_info\<close>, which the versions of libpng up to 1.2 allow; these declare
    \<open>png_uint_32\<close> as \<open>unsigned long\<close>, so the width and the height of an image
    and the size test of \<open>compile_IMAGE\<close> have the width of \<open>unsigned long\<close>.
    A \<open>png_byte\<close> has 8 bits.
  \<^item> The libpng constants have the values of \<open>png.h\<close>.
  \<^item> libpng itself is an oracle: each call is recorded, and the oracle says whether the
    library accepts it or leaves through its error handler.
  \<^item> \<open>strtod\<close> is a parameter that says whether a token is accepted as a non-negative
    floating-point constant; the value is kept as the token's text.
  \<^item> \<open>malloc\<close> and \<open>realloc\<close> succeed; the bytes of fresh memory are a parameter.
  \<^item> A write past the end of an array and a read of an uninitialised variable are
    undefined behaviour in C: the model stops with the error \<open>Undefined\<close>.
  \<^item> The counters of type \<open>int\<close> (\<open>linenum\<close>, \<open>nbits\<close>, \<open>ocount\<close>, the counts of
    the chunk table) are natural numbers or integers without a bound: they count
    characters and chunks of the input, and overflow only after \<open>2^31\<close> of them.
\<close>

subsection \<open>Characters\<close>

type_synonym byte = "8 word"

definition NUL :: char where "NUL = CHR 0x00"
definition newline :: char where "newline = CHR 0x0A"

definition ord :: "char \<Rightarrow> nat" where
  "ord c = of_char c"

definition isdigit :: "char \<Rightarrow> bool" where
  "isdigit c = (48 \<le> ord c \<and> ord c \<le> 57)"

definition isupper :: "char \<Rightarrow> bool" where
  "isupper c = (65 \<le> ord c \<and> ord c \<le> 90)"

definition islower :: "char \<Rightarrow> bool" where
  "islower c = (97 \<le> ord c \<and> ord c \<le> 122)"

definition isalpha :: "char \<Rightarrow> bool" where
  "isalpha c = (isupper c \<or> islower c)"

definition isxdigit :: "char \<Rightarrow> bool" where
  "isxdigit c = (isdigit c \<or> (65 \<le> ord c \<and> ord c \<le> 70) \<or> (97 \<le> ord c \<and> ord c \<le> 102))"

definition isspace :: "char \<Rightarrow> bool" where
  "isspace c = (ord c = 32 \<or> (9 \<le> ord c \<and> ord c \<le> 13))"

definition ispunct :: "char \<Rightarrow> bool" where
  "ispunct c = ((33 \<le> ord c \<and> ord c \<le> 47) \<or> (58 \<le> ord c \<and> ord c \<le> 64)
              \<or> (91 \<le> ord c \<and> ord c \<le> 96) \<or> (123 \<le> ord c \<and> ord c \<le> 126))"

text \<open>A C string ends at its first NUL character.\<close>

definition cstr :: "string \<Rightarrow> string" where
  "cstr buf = takeWhile (\<lambda>c. c \<noteq> NUL) buf"

subsection \<open>\<open>strtoul\<close> with base 0\<close>

text \<open>The width of \<open>unsigned long\<close> in the two data models.\<close>

datatype data_model = ILP32 | LP64

fun ulong_bits :: "data_model \<Rightarrow> nat" where
  "ulong_bits ILP32 = 32"
| "ulong_bits LP64 = 64"

definition ULONG_MAX :: "data_model \<Rightarrow> nat" where
  "ULONG_MAX M = 2 ^ ulong_bits M - 1"

definition digit_value :: "char \<Rightarrow> nat option" where
  "digit_value c =
     (if isdigit c then Some (ord c - 48)
      else if isupper c then Some (ord c - 65 + 10)
      else if islower c then Some (ord c - 97 + 10)
      else None)"

definition is_base_digit :: "nat \<Rightarrow> char \<Rightarrow> bool" where
  "is_base_digit b c = (case digit_value c of None \<Rightarrow> False | Some d \<Rightarrow> d < b)"

fun strtoul_digits :: "nat \<Rightarrow> nat \<Rightarrow> string \<Rightarrow> nat \<times> string" where
  "strtoul_digits b acc [] = (acc, [])"
| "strtoul_digits b acc (c # cs) =
     (case digit_value c of
        None \<Rightarrow> (acc, c # cs)
      | Some d \<Rightarrow> if d < b then strtoul_digits b (acc * b + d) cs else (acc, c # cs))"

text \<open>
  \<open>strtoul M nptr\<close> is the pair of the value returned by \<open>strtoul(nptr, &vp, 0)\<close> and
  the string that \<open>vp\<close> points to afterwards. When no digit can be read the value is 0
  and \<open>vp\<close> is \<open>nptr\<close>; a value that does not fit is \<open>ULONG_MAX\<close>; a minus sign
  negates modulo \<open>ULONG_MAX + 1\<close>.
\<close>

definition strtoul :: "data_model \<Rightarrow> string \<Rightarrow> nat \<times> string" where
  "strtoul M nptr =
     (let s1 = dropWhile isspace nptr;
          neg = (s1 \<noteq> [] \<and> hd s1 = CHR ''-'');
          s2 = (if s1 \<noteq> [] \<and> (hd s1 = CHR ''-'' \<or> hd s1 = CHR ''+'') then tl s1 else s1);
          hex = (case s2 of
                   z # x # h # _ \<Rightarrow> z = CHR ''0'' \<and> (x = CHR ''x'' \<or> x = CHR ''X'') \<and> isxdigit h
                 | _ \<Rightarrow> False);
          base = (if hex then 16 else if s2 \<noteq> [] \<and> hd s2 = CHR ''0'' then 8 else 10);
          s3 = (if hex then drop 2 s2 else s2)
      in if s3 = [] \<or> \<not> is_base_digit base (hd s3) then (0, nptr)
         else let (v, rest) = strtoul_digits base 0 s3
              in if ULONG_MAX M < v then (ULONG_MAX M, rest)
                 else if neg then ((ULONG_MAX M + 1 - v) mod (ULONG_MAX M + 1), rest)
                 else (v, rest))"

subsection \<open>Errors\<close>

text \<open>
  \<open>Fatal l m\<close> is a call of \<open>fatal\<close> with message \<open>m\<close> while \<open>linenum\<close> is \<open>l\<close>;
  \<open>Croak\<close> is an error raised by libpng; \<open>Undefined\<close> is undefined behaviour.
\<close>

datatype error = Fatal int string | Croak | Undefined string

definition EOF :: int where "EOF = - 1"

fun decimal :: "nat \<Rightarrow> string" where
  "decimal n = (if n < 10 then [''0123456789'' ! n]
                else decimal (n div 10) @ [''0123456789'' ! (n mod 10)])"

declare decimal.simps [simp del]

text \<open>The line that \<open>fatal\<close> prints on the error stream.\<close>

definition diagnostic :: "string \<Rightarrow> int \<Rightarrow> string \<Rightarrow> string" where
  "diagnostic file l msg =
     (if l = EOF then file @ '':EOF: '' else file @ '':'' @ decimal (nat l) @ '': '')
     @ msg @ [newline]"

subsection \<open>The image description and the compiler state\<close>

text \<open>
  The fields of \<open>png_info\<close> that the program uses. Those of type \<open>png_uint_32\<close>
  hold a natural number below \<open>2 ^ ulong_bits M\<close>; the coordinates of \<open>cHRM\<close> are
  kept as the text of the token.
\<close>

record png_info =
  width :: nat
  height :: nat
  bit_depth :: byte
  color_type :: byte
  interlace_type :: byte
  num_palette :: nat
  valid :: nat
  x_white :: string
  y_white :: string
  x_red :: string
  y_red :: string
  x_green :: string
  y_green :: string
  x_blue :: string
  y_blue :: string

definition PNG_COLOR_MASK_PALETTE :: byte where "PNG_COLOR_MASK_PALETTE = 1"
definition PNG_COLOR_MASK_COLOR :: byte where "PNG_COLOR_MASK_COLOR = 2"
definition PNG_COLOR_MASK_ALPHA :: byte where "PNG_COLOR_MASK_ALPHA = 4"
definition PNG_COLOR_TYPE_GRAY :: byte where "PNG_COLOR_TYPE_GRAY = 0"
definition PNG_COLOR_TYPE_PALETTE :: byte where "PNG_COLOR_TYPE_PALETTE = 3"
definition PNG_COLOR_TYPE_RGB :: byte where "PNG_COLOR_TYPE_RGB = 2"
definition PNG_COLOR_TYPE_RGB_ALPHA :: byte where "PNG_COLOR_TYPE_RGB_ALPHA = 6"
definition PNG_COLOR_TYPE_GRAY_ALPHA :: byte where "PNG_COLOR_TYPE_GRAY_ALPHA = 4"
definition PNG_INTERLACE_NONE :: byte where "PNG_INTERLACE_NONE = 0"
definition PNG_INTERLACE_ADAM7 :: byte where "PNG_INTERLACE_ADAM7 = 1"

text \<open>The calls of libpng, with the arguments that come from the compiled text.\<close>

datatype png_call =
    Write_info png_info
  | Set_PLTE "(byte \<times> byte \<times> byte) list"
  | Write_chunk string "byte list"
  | Set_gAMA string
  | Set_sRGB byte
  | Set_packing
  | Write_image "byte list"
  | Write_end png_info

record state =
  yyin :: string
  linenum :: int
  token_buffer :: string
  pushed :: bool
  info :: png_info
  counts :: "nat \<Rightarrow> nat"
  prevchunk :: "nat option"
  out :: "png_call list"

record env =
  abi :: data_model
  fresh :: "nat \<Rightarrow> byte"
  strtod_ok :: "string \<Rightarrow> bool"
  png_ok :: "png_call list \<Rightarrow> png_call \<Rightarrow> bool"

definition fatal :: "state \<Rightarrow> string \<Rightarrow> error + 'a" where
  "fatal s msg = Inl (Fatal (linenum s) msg)"

subsection \<open>Tokens\<close>

text \<open>The comment loop of \<open>get_token\<close>: it stops before the newline, or at end of file.\<close>

fun skip_comment :: "string \<Rightarrow> string" where
  "skip_comment [] = []"
| "skip_comment (w # cs) = (if w = newline then w # cs else skip_comment cs)"

lemma length_skip_comment: "length (skip_comment cs) \<le> length cs"
  by (induction cs) auto

text \<open>
  The first loop of \<open>get_token\<close>: the first character of the token (if the file does not
  end first), the unread input, and the line number.
\<close>

function skip_space :: "string \<Rightarrow> int \<Rightarrow> char option \<times> string \<times> int" where
  "skip_space [] l = (None, [], l)"
| "skip_space (w # cs) l =
     (let l' = (if w = newline then l + 1 else l)
      in if isspace w then skip_space cs l'
         else if w = CHR ''#'' then skip_space (skip_comment cs) l'
         else (Some w, cs, l'))"
  by pat_completeness auto
termination
proof (relation "measure (\<lambda>(cs, l). length cs)")
  show "wf (measure (\<lambda>(cs, l). length cs))" by simp
next
  fix w :: char and cs :: string and l l' :: int
  show "((cs, l'), w # cs, l) \<in> measure (\<lambda>(cs, l). length cs)" by simp
next
  fix w :: char and cs :: string and l l' :: int
  have "length (skip_comment cs) \<le> length cs"
    by (rule length_skip_comment)
  then show "((skip_comment cs, l'), w # cs, l) \<in> measure (\<lambda>(cs, l). length cs)" by simp
qed

text \<open>
  The two loops that accumulate a token in \<open>token_buffer\<close>, from position \<open>tp\<close>. A scan
  ends at end of file, in a call of \<open>fatal\<close>, or with the position after the token, the
  buffer, the unread input and whether a newline was consumed.
\<close>

datatype scan = Scan_eof string | Scan_fatal string | Scan_end nat string string bool

definition token_buffer_size :: nat where
  "token_buffer_size = 81"

fun quoted_loop :: "char \<Rightarrow> nat \<Rightarrow> string \<Rightarrow> string \<Rightarrow> scan" where
  "quoted_loop w tp buf [] = Scan_eof buf"
| "quoted_loop w tp buf (c # cs) =
     (if c = w then Scan_end tp buf cs False
      else if c = newline then Scan_fatal ''runaway string''
      else if tp \<ge> token_buffer_size then Scan_fatal ''string token too long''
      else quoted_loop w (tp + 1) (buf[tp := c]) cs)"

fun token_loop :: "nat \<Rightarrow> string \<Rightarrow> string \<Rightarrow> scan" where
  "token_loop tp buf [] = Scan_eof buf"
| "token_loop tp buf (c # cs) =
     (if isspace c then Scan_end tp buf cs (c = newline)
      else if ispunct c \<and> c \<noteq> CHR ''.'' then Scan_end tp buf (c # cs) False
      else if tp \<ge> token_buffer_size then Scan_fatal ''token too long''
      else token_loop (tp + 1) (buf[tp := c]) cs)"

definition get_token :: "state \<Rightarrow> error + bool \<times> state" where
  "get_token s =
     (if pushed s then Inr (True, s\<lparr>pushed := False\<rparr>)
      else case skip_space (yyin s) (linenum s) of
        (None, rest, l) \<Rightarrow> Inr (False, s\<lparr>yyin := rest, linenum := l\<rparr>)
      | (Some w, rest, l) \<Rightarrow>
          (case (if w = CHR 0x27 \<or> w = CHR 0x22 then quoted_loop w 0 ((token_buffer s)[0 := w]) rest
                 else if \<not> ispunct w then token_loop 1 ((token_buffer s)[0 := w]) rest
                 else Scan_end 1 ((token_buffer s)[0 := w]) rest False) of
             Scan_eof buf \<Rightarrow> Inr (False, s\<lparr>yyin := [], linenum := l, token_buffer := buf\<rparr>)
           | Scan_fatal msg \<Rightarrow> Inl (Fatal l msg)
           | Scan_end tp buf rest' nl \<Rightarrow>
               if tp < token_buffer_size
               then Inr (True, s\<lparr>yyin := rest', linenum := (if nl then l + 1 else l),
                                 token_buffer := buf[tp := NUL]\<rparr>)
               else Inl (Undefined ''write past the end of token_buffer'')))"

definition token :: "state \<Rightarrow> string" where
  "token s = cstr (token_buffer s)"

definition token_equals :: "string \<Rightarrow> state \<Rightarrow> bool" where
  "token_equals str s = (str = token s)"

definition get_inner_token :: "state \<Rightarrow> error + bool \<times> state" where
  "get_inner_token s =
     (case get_token s of
        Inl e \<Rightarrow> Inl e
      | Inr (ok, s1) \<Rightarrow>
          if \<not> ok then fatal s1 ''unexpected EOF''
          else Inr (\<not> token_equals ''}'' s1, s1))"

definition push_token :: "state \<Rightarrow> state" where
  "push_token s = s\<lparr>pushed := True\<rparr>"

definition require_or_die :: "string \<Rightarrow> state \<Rightarrow> error + state" where
  "require_or_die str s =
     (case get_token s of
        Inl e \<Rightarrow> Inl e
      | Inr (ok, s1) \<Rightarrow>
          if \<not> ok then fatal s1 ''unexpected EOF''
          else if \<not> token_equals str s1 then fatal s1 (''unexpected token '' @ token s1)
          else Inr s1)"

definition long_numeric :: "data_model \<Rightarrow> bool \<Rightarrow> state \<Rightarrow> error + nat" where
  "long_numeric M token_ok s =
     (if \<not> token_ok then fatal s ''EOF while expecting long-integer constant''
      else case strtoul M (token s) of
        (result, vp) \<Rightarrow>
          if vp \<noteq> [] \<or> result = 2147483647
          then fatal s ''invalid or out of range long constant''
          else Inr result)"

definition byte_numeric :: "data_model \<Rightarrow> bool \<Rightarrow> state \<Rightarrow> error + byte" where
  "byte_numeric M token_ok s =
     (if \<not> token_ok then fatal s ''EOF while expecting byte constant''
      else case strtoul M (token s) of
        (result, vp) \<Rightarrow>
          if vp \<noteq> [] \<or> result > 255
          then fatal s ''invalid or out of range byte constant''
          else Inr (of_nat result))"

definition double_numeric :: "env \<Rightarrow> bool \<Rightarrow> state \<Rightarrow> error + string" where
  "double_numeric E token_ok s =
     (if \<not> token_ok then fatal s ''EOF while expecting double-precision constant''
      else if \<not> strtod_ok E (token s)
      then fatal s ''invalid or out of range double-precision constant''
      else Inr (token s))"

subsection \<open>Data segments\<close>

definition MEMORY_QUANTUM :: nat where
  "MEMORY_QUANTUM = 1024"

text \<open>A fresh block of \<open>n\<close> bytes, and a block resized to \<open>n\<close> bytes.\<close>

definition xalloc :: "env \<Rightarrow> nat \<Rightarrow> byte list" where
  "xalloc E n = map (fresh E) [0..<n]"

definition xrealloc :: "env \<Rightarrow> byte list \<Rightarrow> nat \<Rightarrow> byte list" where
  "xrealloc E p n = take n p @ map (fresh E) [length p..<n]"

text \<open>
  The value of one character in each of the two formats of \<open>collect_data\<close>;
  \<open>None\<close> is the call \<open>fatal("bad character in IDAT block")\<close>.
\<close>

definition dense_value :: "char \<Rightarrow> byte option" where
  "dense_value c =
     (if \<not> isalpha c \<and> \<not> isdigit c then None
      else if isdigit c then Some (of_nat (ord c - 48))
      else if isupper c then Some (of_nat ((ord c - 65) + 36))
      else Some (of_nat ((ord c - 97) + 10)))"

definition hex_value :: "char \<Rightarrow> byte option" where
  "hex_value c =
     (if \<not> isxdigit c then None
      else if isdigit c then Some (of_nat (ord c - 48))
      else if isupper c then Some (of_nat ((ord c - 65) + 10))
      else Some (of_nat ((ord c - 97) + 10)))"

text \<open>
  The loop of \<open>collect_data\<close> over the unread input, with the local variables
  \<open>bits\<close>, \<open>quanta\<close>, \<open>nbits\<close> and \<open>ocount\<close>. The block \<open>bits\<close> is the list of
  its bytes, so its length is the size it was allocated with.
\<close>

fun collect_loop ::
  "env \<Rightarrow> bool \<Rightarrow> int \<Rightarrow> byte list \<Rightarrow> nat \<Rightarrow> nat \<Rightarrow> nat \<Rightarrow> string
     \<Rightarrow> error + nat \<times> byte list \<times> string" where
  "collect_loop E pixperchar l bits quanta nbits ocount [] =
     Inl (Fatal l ''unexpected EOF in data segment'')"
| "collect_loop E pixperchar l bits quanta nbits ocount (c # cs) =
     (if c = NUL then Inr (nbits, bits, cs)
      else if c = CHR ''}'' then Inr (nbits, bits, cs)
      else if isspace c then collect_loop E pixperchar l bits quanta nbits ocount cs
      else
        let grow = (nbits > quanta * MEMORY_QUANTUM);
            bits1 = (if grow then xrealloc E bits (MEMORY_QUANTUM * (quanta + 1)) else bits);
            quanta1 = (if grow then quanta + 1 else quanta)
        in if pixperchar then
             (case dense_value c of
                None \<Rightarrow> Inl (Fatal l ''bad character in IDAT block'')
              | Some v \<Rightarrow>
                  if \<not> nbits < length bits1 then Inl (Undefined ''write past the end of bits'')
                  else collect_loop E pixperchar l (bits1[nbits := v]) quanta1 (nbits + 1) ocount cs)
           else
             (case hex_value c of
                None \<Rightarrow> Inl (Fatal l ''bad character in IDAT block'')
              | Some v \<Rightarrow>
                  if \<not> nbits < length bits1 then Inl (Undefined ''write past the end of bits'')
                  else if ocount mod 2 \<noteq> 0
                  then collect_loop E pixperchar l (bits1[nbits := v * 16]) quanta1 nbits
                         (ocount + 1) cs
                  else collect_loop E pixperchar l (bits1[nbits := bits1 ! nbits OR v]) quanta1
                         (nbits + 1) (ocount + 1) cs))"

definition collect_data :: "env \<Rightarrow> bool \<Rightarrow> state \<Rightarrow> error + nat \<times> byte list \<times> state" where
  "collect_data E pixperchar s =
     (case collect_loop E pixperchar (linenum s) (xalloc E MEMORY_QUANTUM) 1 0 0 (yyin s) of
        Inl e \<Rightarrow> Inl e
      | Inr (nbits, bits, rest) \<Rightarrow> Inr (nbits, bits, s\<lparr>yyin := rest\<rparr>))"

subsection \<open>Every token shortens the input\<close>

text \<open>
  The loops over tokens are recursive functions of the state. They terminate because a
  token that \<open>get_token\<close> returns was either pushed back or read from the input.
\<close>

definition unread :: "state \<Rightarrow> nat" where
  "unread s = 2 * length (yyin s) + (if pushed s then 1 else 0)"

lemma skip_space_Some_shorter:
  "skip_space cs l = (Some w, rest, l') \<Longrightarrow> length rest < length cs"
proof (induction cs l rule: skip_space.induct)
  case (1 l)
  then show ?case by simp
next
  case (2 w0 cs l)
  let ?l = "if w0 = newline then l + 1 else l"
  show ?case
  proof (cases "isspace w0")
    case True
    with 2 have "length rest < length cs" by (simp add: Let_def)
    then show ?thesis by simp
  next
    case nsp: False
    show ?thesis
    proof (cases "w0 = CHR ''#''")
      case True
      with 2 nsp have "length rest < length (skip_comment cs)" by (simp add: Let_def)
      with length_skip_comment [of cs] show ?thesis by simp
    next
      case False
      with 2 nsp show ?thesis by (simp add: Let_def)
    qed
  qed
qed

lemma skip_space_None_empty:
  "skip_space cs l = (None, rest, l') \<Longrightarrow> rest = []"
  by (induction cs l rule: skip_space.induct) (simp_all add: Let_def split: if_splits)

lemma quoted_loop_shorter:
  "quoted_loop w tp buf cs = Scan_end tp' buf' rest nl \<Longrightarrow> length rest \<le> length cs"
proof (induction cs arbitrary: tp buf)
  case Nil
  then show ?case by simp
next
  case (Cons c cs)
  show ?case
  proof (cases "c = w")
    case True
    with Cons.prems show ?thesis by simp
  next
    case False
    with Cons.prems have "quoted_loop w (tp + 1) (buf[tp := c]) cs = Scan_end tp' buf' rest nl"
      by (simp split: if_splits)
    then have "length rest \<le> length cs" by (rule Cons.IH)
    then show ?thesis by simp
  qed
qed

lemma token_loop_shorter:
  "token_loop tp buf cs = Scan_end tp' buf' rest nl \<Longrightarrow> length rest \<le> length cs"
proof (induction cs arbitrary: tp buf)
  case Nil
  then show ?case by simp
next
  case (Cons c cs)
  show ?case
  proof (cases "isspace c \<or> (ispunct c \<and> c \<noteq> CHR ''.'')")
    case True
    with Cons.prems show ?thesis by (auto split: if_splits)
  next
    case False
    with Cons.prems have "token_loop (tp + 1) (buf[tp := c]) cs = Scan_end tp' buf' rest nl"
      by (simp split: if_splits)
    then have "length rest \<le> length cs" by (rule Cons.IH)
    then show ?thesis by simp
  qed
qed

text \<open>What a call of \<open>get_token\<close> that returns has done to the state.\<close>

lemma get_token_cases:
  assumes "get_token s = Inr (ok, s')"
  shows "(pushed s \<and> ok \<and> s' = s\<lparr>pushed := False\<rparr>)
       \<or> (\<not> pushed s \<and> \<not> pushed s' \<and> \<not> ok \<and> yyin s' = [])
       \<or> (\<not> pushed s \<and> \<not> pushed s' \<and> ok \<and> length (yyin s') < length (yyin s))"
proof (cases "pushed s")
  case True
  with assms show ?thesis by (simp add: get_token_def)
next
  case np: False
  obtain w rest l where sk: "skip_space (yyin s) (linenum s) = (w, rest, l)"
    by (cases "skip_space (yyin s) (linenum s)") auto
  show ?thesis
  proof (cases w)
    case None
    with sk have "rest = []" by (auto dest: skip_space_None_empty)
    with assms np sk None show ?thesis by (auto simp: get_token_def)
  next
    case (Some c)
    with sk have len: "length rest < length (yyin s)"
      by (auto dest: skip_space_Some_shorter)
    let ?buf = "(token_buffer s)[0 := c]"
    let ?sc = "if c = CHR 0x27 \<or> c = CHR 0x22 then quoted_loop c 0 ?buf rest
               else if \<not> ispunct c then token_loop 1 ?buf rest
               else Scan_end 1 ?buf rest False"
    have gt: "get_token s =
       (case ?sc of
          Scan_eof buf \<Rightarrow> Inr (False, s\<lparr>yyin := [], linenum := l, token_buffer := buf\<rparr>)
        | Scan_fatal msg \<Rightarrow> Inl (Fatal l msg)
        | Scan_end tp buf rest' nl \<Rightarrow>
            if tp < token_buffer_size
            then Inr (True, s\<lparr>yyin := rest', linenum := (if nl then l + 1 else l),
                              token_buffer := buf[tp := NUL]\<rparr>)
            else Inl (Undefined ''write past the end of token_buffer''))"
      using np sk Some by (simp add: get_token_def)
    show ?thesis
    proof (cases ?sc)
      case (Scan_eof buf)
      with gt assms np show ?thesis by auto
    next
      case (Scan_fatal msg)
      with gt assms show ?thesis by simp
    next
      case (Scan_end tp buf rest' nl)
      then have "length rest' \<le> length rest"
        by (auto split: if_splits dest: quoted_loop_shorter token_loop_shorter)
      with len have "length rest' < length (yyin s)" by simp
      with Scan_end gt assms np show ?thesis by (auto split: if_splits)
    qed
  qed
qed

lemma get_token_unread_le:
  "get_token s = Inr (ok, s') \<Longrightarrow> unread s' \<le> unread s"
  by (drule get_token_cases) (auto simp: unread_def)

lemma get_token_unread_less:
  "get_token s = Inr (True, s') \<Longrightarrow> unread s' < unread s"
  by (drule get_token_cases) (auto simp: unread_def)

lemma get_inner_token_unread_less:
  "get_inner_token s = Inr (inner, s') \<Longrightarrow> unread s' < unread s"
  by (auto simp: get_inner_token_def fatal_def split: sum.splits if_splits
           dest: get_token_unread_less)

lemma require_or_die_unread_less:
  "require_or_die str s = Inr s' \<Longrightarrow> unread s' < unread s"
  by (auto simp: require_or_die_def fatal_def split: sum.splits if_splits
           dest: get_token_unread_less)

lemma unread_info_update [simp]: "unread (s\<lparr>info := i\<rparr>) = unread s"
  by (simp add: unread_def)

lemma unread_out_update [simp]: "unread (s\<lparr>out := c\<rparr>) = unread s"
  by (simp add: unread_def)

subsection \<open>The chunk table\<close>

definition IHDR :: nat where "IHDR = 0"
definition PLTE :: nat where "PLTE = 1"
definition IDAT :: nat where "IDAT = 2"
definition cHRM :: nat where "cHRM = 3"
definition gAMA :: nat where "gAMA = 4"
definition iCCP :: nat where "iCCP = 5"
definition sBIT :: nat where "sBIT = 6"
definition sRGB :: nat where "sRGB = 7"
definition bKGD :: nat where "bKGD = 8"
definition hIST :: nat where "hIST = 9"
definition tRNS :: nat where "tRNS = 10"
definition pHYs :: nat where "pHYs = 11"
definition sPLT :: nat where "sPLT = 12"
definition tIME :: nat where "tIME = 13"
definition iTXt :: nat where "iTXt = 14"
definition tEXt :: nat where "tEXt = 15"
definition zTXt :: nat where "zTXt = 16"
definition oFFs :: nat where "oFFs = 17"
definition pCAL :: nat where "pCAL = 18"
definition sCAL :: nat where "sCAL = 19"
definition gIFg :: nat where "gIFg = 20"
definition gIFt :: nat where "gIFt = 21"
definition gIFx :: nat where "gIFx = 22"
definition fRAc :: nat where "fRAc = 23"
definition IMAGE :: nat where "IMAGE = 24"
definition PRIVATE :: nat where "PRIVATE = 25"

text \<open>
  The name and the \<open>multiple_ok\<close> flag of each entry of \<open>properties\<close>; the counts
  are the field \<open>counts\<close> of the state.
\<close>

definition properties :: "(string \<times> bool) list" where
  "properties =
     [(''IHDR'', False), (''PLTE'', False), (''IDAT'', True), (''cHRM'', False),
      (''gAMA'', False), (''iCCP'', False), (''sBIT'', False), (''sRGB'', False),
      (''bKGD'', False), (''hIST'', False), (''tRNS'', False), (''pHYs'', False),
      (''sPLT'', True), (''tIME'', False), (''iTXt'', True), (''tEXt'', True),
      (''zTXt'', True),
      (''pHYs'', False), (''pHYs'', False), (''pHYs'', False), (''pHYs'', False),
      (''pHYs'', False), (''pHYs'', False), (''pHYs'', False),
      (''IMAGE'', False),
      (''private'', True)]"

definition multiple_ok :: "nat \<Rightarrow> bool" where
  "multiple_ok pp = snd (properties ! pp)"

definition count :: "state \<Rightarrow> nat \<Rightarrow> nat" where
  "count s pp = counts s pp"

text \<open>The search of the table for the token, from entry \<open>i\<close> on.\<close>

fun find_chunk :: "string \<Rightarrow> (string \<times> bool) list \<Rightarrow> nat \<Rightarrow> nat option" where
  "find_chunk t [] i = None"
| "find_chunk t (p # ps) i = (if t = fst p then Some i else find_chunk t ps (i + 1))"

subsection \<open>The chunk compilers\<close>

text \<open>A call of libpng: recorded when the library accepts it, \<open>Croak\<close> otherwise.\<close>

definition png :: "env \<Rightarrow> png_call \<Rightarrow> state \<Rightarrow> error + state" where
  "png E c s = (if png_ok E (out s) c then Inr (s\<lparr>out := out s @ [c]\<rparr>) else Inl Croak)"

text \<open>
  Each loop over the inner tokens of a chunk is a body, which handles the token just
  read, and a recursive function, which reads the next token and stops at the brace.
\<close>

definition IHDR_token :: "data_model \<Rightarrow> state \<Rightarrow> error + state" where
  "IHDR_token M s1 =
     (if token_equals ''height'' s1 then
        (case get_token s1 of
           Inl e \<Rightarrow> Inl e
         | Inr (ok, s2) \<Rightarrow>
             (case long_numeric M ok s2 of
                Inl e \<Rightarrow> Inl e
              | Inr v \<Rightarrow> Inr (s2\<lparr>info := (info s2)\<lparr>height := v\<rparr>\<rparr>)))
      else if token_equals ''width'' s1 then
        (case get_token s1 of
           Inl e \<Rightarrow> Inl e
         | Inr (ok, s2) \<Rightarrow>
             (case long_numeric M ok s2 of
                Inl e \<Rightarrow> Inl e
              | Inr v \<Rightarrow> Inr (s2\<lparr>info := (info s2)\<lparr>width := v\<rparr>\<rparr>)))
      else if token_equals ''bitdepth'' s1 then
        (case get_token s1 of
           Inl e \<Rightarrow> Inl e
         | Inr (ok, s2) \<Rightarrow>
             (case byte_numeric M ok s2 of
                Inl e \<Rightarrow> Inl e
              | Inr v \<Rightarrow> Inr (s2\<lparr>info := (info s2)\<lparr>bit_depth := v\<rparr>\<rparr>)))
      else if token_equals ''using'' s1 then Inr s1
      else if token_equals ''palette'' s1 then
        Inr (s1\<lparr>info := (info s1)\<lparr>color_type := color_type (info s1) OR PNG_COLOR_MASK_PALETTE\<rparr>\<rparr>)
      else if token_equals ''color'' s1 then
        Inr (s1\<lparr>info := (info s1)\<lparr>color_type := color_type (info s1) OR PNG_COLOR_MASK_COLOR\<rparr>\<rparr>)
      else if token_equals ''alpha'' s1 then
        Inr (s1\<lparr>info := (info s1)\<lparr>color_type := color_type (info s1) OR PNG_COLOR_MASK_ALPHA\<rparr>\<rparr>)
      else if token_equals ''with'' s1 then Inr s1
      else if token_equals ''interlace'' s1 then
        Inr (s1\<lparr>info := (info s1)\<lparr>interlace_type := PNG_INTERLACE_ADAM7\<rparr>\<rparr>)
      else fatal s1 (''bad token `'' @ token s1 @ [CHR 0x27] @ '' in IHDR specification''))"

lemma IHDR_token_unread_le:
  "IHDR_token M s = Inr s' \<Longrightarrow> unread s' \<le> unread s"
  by (auto simp: IHDR_token_def fatal_def split: if_splits sum.splits prod.splits
           dest!: get_token_unread_le)

function compile_IHDR_loop :: "data_model \<Rightarrow> state \<Rightarrow> error + state" where
  "compile_IHDR_loop M s =
     (case get_inner_token s of
        Inl e \<Rightarrow> Inl e
      | Inr (inner, s1) \<Rightarrow>
          if \<not> inner then Inr s1
          else (case IHDR_token M s1 of
                  Inl e \<Rightarrow> Inl e
                | Inr s2 \<Rightarrow> compile_IHDR_loop M s2))"
  by pat_completeness auto
termination
proof (relation "measure (\<lambda>(M, s). unread s)")
  show "wf (measure (\<lambda>(M, s). unread s))" by simp
next
  fix M :: data_model and s x2 inner s1 s2
  assume "get_inner_token s = Inr x2" "(inner, s1) = x2" "IHDR_token M s1 = Inr s2"
  then have "unread s1 < unread s" "unread s2 \<le> unread s1"
    by (auto dest: get_inner_token_unread_less IHDR_token_unread_le)
  then show "((M, s2), M, s) \<in> measure (\<lambda>(M, s). unread s)" by simp
qed

declare compile_IHDR_loop.simps [simp del]

definition compile_IHDR :: "data_model \<Rightarrow> state \<Rightarrow> error + state" where
  "compile_IHDR M s =
     (case compile_IHDR_loop M
             (s\<lparr>info := (info s)\<lparr>bit_depth := 8, color_type := 0,
                                   interlace_type := PNG_INTERLACE_NONE\<rparr>\<rparr>) of
        Inl e \<Rightarrow> Inl e
      | Inr s1 \<Rightarrow>
          if height (info s1) = 0 then fatal s1 ''image height is zero or nonexistent''
          else if width (info s1) = 0 then fatal s1 ''image width is zero or nonexistent''
          else Inr s1)"

text \<open>
  In \<open>compile_PLTE\<close> the local array \<open>palette\<close> has 256 entries; the three channels
  of entry \<open>ncolors\<close> are stored one by one, the first as soon as it has been read.
\<close>

type_synonym png_color = "byte \<times> byte \<times> byte"

definition PLTE_entry ::
  "data_model \<Rightarrow> png_color list \<Rightarrow> nat \<Rightarrow> state \<Rightarrow> error + png_color list \<times> state" where
  "PLTE_entry M palette ncolors s1 =
     (if \<not> token_equals ''('' s1 then fatal s1 ''bad syntax in PLTE description''
      else
        (case get_token s1 of
           Inl e \<Rightarrow> Inl e
         | Inr (ok2, s2) \<Rightarrow>
        (case byte_numeric M ok2 s2 of
           Inl e \<Rightarrow> Inl e
         | Inr r \<Rightarrow>
        if \<not> ncolors < length palette
        then Inl (Undefined ''write past the end of palette'')
        else
        (case require_or_die '','' s2 of
           Inl e \<Rightarrow> Inl e
         | Inr s3 \<Rightarrow>
        (case get_token s3 of
           Inl e \<Rightarrow> Inl e
         | Inr (ok4, s4) \<Rightarrow>
        (case byte_numeric M ok4 s4 of
           Inl e \<Rightarrow> Inl e
         | Inr g \<Rightarrow>
        (case require_or_die '','' s4 of
           Inl e \<Rightarrow> Inl e
         | Inr s5 \<Rightarrow>
        (case get_token s5 of
           Inl e \<Rightarrow> Inl e
         | Inr (ok6, s6) \<Rightarrow>
        (case byte_numeric M ok6 s6 of
           Inl e \<Rightarrow> Inl e
         | Inr b \<Rightarrow>
        (case require_or_die '')'' s6 of
           Inl e \<Rightarrow> Inl e
         | Inr s7 \<Rightarrow> Inr (palette[ncolors := (r, g, b)], s7)))))))))))"

lemma PLTE_entry_unread_le:
  assumes "PLTE_entry M palette ncolors s = Inr (palette', s')"
  shows "unread s' \<le> unread s"
proof -
  from assms obtain ok2 s2 s3 ok4 s4 s5 ok6 s6 where
    "get_token s = Inr (ok2, s2)" "require_or_die '','' s2 = Inr s3"
    "get_token s3 = Inr (ok4, s4)" "require_or_die '','' s4 = Inr s5"
    "get_token s5 = Inr (ok6, s6)" "require_or_die '')'' s6 = Inr s'"
    by (auto simp: PLTE_entry_def fatal_def split: if_splits sum.splits prod.splits)
  then have "unread s2 \<le> unread s" "unread s3 < unread s2" "unread s4 \<le> unread s3"
    "unread s5 < unread s4" "unread s6 \<le> unread s5" "unread s' < unread s6"
    by (auto dest: get_token_unread_le require_or_die_unread_less)
  then show ?thesis by simp
qed

function compile_PLTE_loop ::
  "data_model \<Rightarrow> png_color list \<Rightarrow> nat \<Rightarrow> state
     \<Rightarrow> error + png_color list \<times> nat \<times> state" where
  "compile_PLTE_loop M palette ncolors s =
     (case get_inner_token s of
        Inl e \<Rightarrow> Inl e
      | Inr (inner, s1) \<Rightarrow>
          if \<not> inner then Inr (palette, ncolors, s1)
          else (case PLTE_entry M palette ncolors s1 of
                  Inl e \<Rightarrow> Inl e
                | Inr (palette', s7) \<Rightarrow> compile_PLTE_loop M palette' (ncolors + 1) s7))"
  by pat_completeness auto
termination
proof (relation "measure (\<lambda>(M, palette, ncolors, s). unread s)")
  show "wf (measure (\<lambda>(M, palette, ncolors, s). unread s))" by simp
next
  fix M :: data_model and palette :: "png_color list" and ncolors :: nat
    and s x2 inner s1 x2a palette' s7
  assume "get_inner_token s = Inr x2" "(inner, s1) = x2"
    "PLTE_entry M palette ncolors s1 = Inr x2a" "(palette', s7) = x2a"
  then have "unread s1 < unread s" "unread s7 \<le> unread s1"
    by (auto dest: get_inner_token_unread_less PLTE_entry_unread_le)
  then show "((M, palette', ncolors + 1, s7), M, palette, ncolors, s)
               \<in> measure (\<lambda>(M, palette, ncolors, s). unread s)" by simp
qed

declare compile_PLTE_loop.simps [simp del]

text \<open>
  \<open>png_set_PLTE\<close> makes the first \<open>ncolors\<close> entries the palette of the image
  description and stores their number in \<open>num_palette\<close>.
\<close>

definition compile_PLTE :: "env \<Rightarrow> state \<Rightarrow> error + state" where
  "compile_PLTE E s =
     (case compile_PLTE_loop (abi E) (replicate 256 (0, 0, 0)) 0 s of
        Inl e \<Rightarrow> Inl e
      | Inr (palette, ncolors, s1) \<Rightarrow>
          png E (Set_PLTE (take ncolors palette))
            (s1\<lparr>info := (info s1)\<lparr>num_palette := ncolors\<rparr>\<rparr>))"

definition compile_IDAT :: "env \<Rightarrow> state \<Rightarrow> error + state" where
  "compile_IDAT E s =
     (case collect_data E False s of
        Inl e \<Rightarrow> Inl e
      | Inr (nbits, bits, s1) \<Rightarrow> png E (Write_chunk ''IDAT'' (take nbits bits)) s1)"

text \<open>The two coordinates of a colour in \<open>compile_cHRM\<close>, after its name.\<close>

definition cHRM_pair :: "env \<Rightarrow> state \<Rightarrow> error + string \<times> string \<times> state" where
  "cHRM_pair E s =
     (case require_or_die ''('' s of
        Inl e \<Rightarrow> Inl e
      | Inr s1 \<Rightarrow>
     (case get_inner_token s1 of
        Inl e \<Rightarrow> Inl e
      | Inr (ok2, s2) \<Rightarrow>
     (case double_numeric E ok2 s2 of
        Inl e \<Rightarrow> Inl e
      | Inr x \<Rightarrow>
     (case require_or_die '','' s2 of
        Inl e \<Rightarrow> Inl e
      | Inr s3 \<Rightarrow>
     (case get_inner_token s3 of
        Inl e \<Rightarrow> Inl e
      | Inr (ok4, s4) \<Rightarrow>
     (case double_numeric E ok4 s4 of
        Inl e \<Rightarrow> Inl e
      | Inr y \<Rightarrow>
     (case require_or_die '')'' s4 of
        Inl e \<Rightarrow> Inl e
      | Inr s5 \<Rightarrow> Inr (x, y, s5))))))))"

lemma cHRM_pair_unread_less:
  assumes "cHRM_pair E s = Inr (x, y, s')"
  shows "unread s' < unread s"
proof -
  from assms obtain s1 ok2 s2 s3 ok4 s4 where
    "require_or_die ''('' s = Inr s1" "get_inner_token s1 = Inr (ok2, s2)"
    "require_or_die '','' s2 = Inr s3" "get_inner_token s3 = Inr (ok4, s4)"
    "require_or_die '')'' s4 = Inr s'"
    by (auto simp: cHRM_pair_def split: sum.splits prod.splits)
  then have "unread s1 < unread s" "unread s2 < unread s1" "unread s3 < unread s2"
    "unread s4 < unread s3" "unread s' < unread s4"
    by (auto dest: get_inner_token_unread_less require_or_die_unread_less)
  then show ?thesis by simp
qed

definition cHRM_color :: "env \<Rightarrow> byte \<Rightarrow> state \<Rightarrow> error + byte \<times> state" where
  "cHRM_color E cmask s1 =
     (if token_equals ''white'' s1 then
        (case cHRM_pair E s1 of
           Inl e \<Rightarrow> Inl e
         | Inr (x, y, s2) \<Rightarrow>
             Inr (cmask OR 0x01, s2\<lparr>info := (info s2)\<lparr>x_white := x, y_white := y\<rparr>\<rparr>))
      else if token_equals ''red'' s1 then
        (case cHRM_pair E s1 of
           Inl e \<Rightarrow> Inl e
         | Inr (x, y, s2) \<Rightarrow>
             Inr (cmask OR 0x02, s2\<lparr>info := (info s2)\<lparr>x_red := x, y_red := y\<rparr>\<rparr>))
      else if token_equals ''green'' s1 then
        (case cHRM_pair E s1 of
           Inl e \<Rightarrow> Inl e
         | Inr (x, y, s2) \<Rightarrow>
             Inr (cmask OR 0x04, s2\<lparr>info := (info s2)\<lparr>x_green := x, y_green := y\<rparr>\<rparr>))
      else if token_equals ''blue'' s1 then
        (case cHRM_pair E s1 of
           Inl e \<Rightarrow> Inl e
         | Inr (x, y, s2) \<Rightarrow>
             Inr (cmask OR 0x08, s2\<lparr>info := (info s2)\<lparr>x_blue := x, y_blue := y\<rparr>\<rparr>))
      else fatal s1 ''invalid color name in cHRM specification'')"

lemma cHRM_color_unread_le:
  "cHRM_color E cmask s = Inr (cmask', s') \<Longrightarrow> unread s' \<le> unread s"
  by (auto simp: cHRM_color_def fatal_def split: if_splits sum.splits prod.splits
           dest!: cHRM_pair_unread_less)

function compile_cHRM_loop :: "env \<Rightarrow> byte \<Rightarrow> state \<Rightarrow> error + byte \<times> state" where
  "compile_cHRM_loop E cmask s =
     (case get_inner_token s of
        Inl e \<Rightarrow> Inl e
      | Inr (inner, s1) \<Rightarrow>
          if \<not> inner then Inr (cmask, s1)
          else (case cHRM_color E cmask s1 of
                  Inl e \<Rightarrow> Inl e
                | Inr (cmask', s2) \<Rightarrow> compile_cHRM_loop E cmask' s2))"
  by pat_completeness auto
termination
proof (relation "measure (\<lambda>(E, cmask, s). unread s)")
  show "wf (measure (\<lambda>(E, cmask, s). unread s))" by simp
next
  fix E :: env and cmask :: byte and s x2 inner s1 x2a cmask' s2
  assume "get_inner_token s = Inr x2" "(inner, s1) = x2"
    "cHRM_color E cmask s1 = Inr x2a" "(cmask', s2) = x2a"
  then have "unread s1 < unread s" "unread s2 \<le> unread s1"
    by (auto dest: get_inner_token_unread_less cHRM_color_unread_le)
  then show "((E, cmask', s2), E, cmask, s) \<in> measure (\<lambda>(E, cmask, s). unread s)" by simp
qed

declare compile_cHRM_loop.simps [simp del]

definition compile_cHRM :: "env \<Rightarrow> state \<Rightarrow> error + state" where
  "compile_cHRM E s =
     (case compile_cHRM_loop E 0 s of
        Inl e \<Rightarrow> Inl e
      | Inr (cmask, s1) \<Rightarrow>
          if cmask \<noteq> 0x0f then fatal s1 ''cHRM specification is not complete''
          else Inr (s1\<lparr>info := (info s1)\<lparr>valid := valid (info s1) OR cHRM\<rparr>\<rparr>))"

text \<open>
  The input sample size in bits of \<open>compile_IMAGE\<close>; the \<open>switch\<close> has no default,
  so for another colour type the variable is read uninitialised (\<open>None\<close>).
\<close>

definition sample_size :: "png_info \<Rightarrow> nat option" where
  "sample_size i =
     (if color_type i = PNG_COLOR_TYPE_GRAY then Some (unat (bit_depth i))
      else if color_type i = PNG_COLOR_TYPE_PALETTE then Some 8
      else if color_type i = PNG_COLOR_TYPE_RGB then Some (unat (bit_depth i) * 3)
      else if color_type i = PNG_COLOR_TYPE_RGB_ALPHA then Some (unat (bit_depth i) * 4)
      else if color_type i = PNG_COLOR_TYPE_GRAY_ALPHA then Some (unat (bit_depth i) * 2)
      else None)"

definition sample_per_char :: "png_info \<Rightarrow> nat \<Rightarrow> bool" where
  "sample_per_char i sz =
     (sz \<le> 5 \<or> (color_type i AND PNG_COLOR_MASK_PALETTE \<noteq> 0 \<and> num_palette i \<le> 62))"

text \<open>
  The size test of \<open>compile_IMAGE\<close> compares in \<open>unsigned long\<close>: \<open>nbits\<close> and
  \<open>sample_size / 8\<close> are converted, and the product is taken modulo
  \<open>2 ^ ulong_bits M\<close>.
\<close>

definition image_size :: "data_model \<Rightarrow> png_info \<Rightarrow> nat \<Rightarrow> nat" where
  "image_size M i sz = (width i * height i * (sz div 8)) mod 2 ^ ulong_bits M"

definition compile_IMAGE :: "env \<Rightarrow> state \<Rightarrow> error + state" where
  "compile_IMAGE E s =
     (case sample_size (info s) of
        None \<Rightarrow> Inl (Undefined ''sample_size is not initialised'')
      | Some sz \<Rightarrow>
     (case collect_data E (sample_per_char (info s) sz) s of
        Inl e \<Rightarrow> Inl e
      | Inr (nbits, bits, s1) \<Rightarrow>
          if nbits mod 2 ^ ulong_bits (abi E) \<noteq> image_size (abi E) (info s1) sz
          then fatal s1 (''size of IMAGE doesn'' @ [CHR 0x27] @ ''t match height * width in IHDR'')
          else
            (case png E Set_packing s1 of
               Inl e \<Rightarrow> Inl e
             | Inr s2 \<Rightarrow> png E (Write_image (take nbits bits)) s2)))"

subsection \<open>The compiler\<close>

text \<open>The \<open>switch\<close> of \<open>pngc\<close> on the chunk type, after the opening brace.\<close>

definition compile_chunk :: "env \<Rightarrow> nat \<Rightarrow> state \<Rightarrow> error + state" where
  "compile_chunk E pp s =
     (if pp = IHDR then
        (if prevchunk s \<noteq> None then fatal s ''IHDR chunk must come first''
         else compile_IHDR (abi E) s)
      else if pp = PLTE then
        (if count s IDAT \<noteq> 0 then fatal s ''PLTE chunk must come before IDAT''
         else if count s bKGD \<noteq> 0 then fatal s ''PLTE chunk encountered after bKGD''
         else if count s tRNS \<noteq> 0 then fatal s ''PLTE chunk encountered after tRNS''
         else if color_type (info s) AND PNG_COLOR_MASK_PALETTE = 0
         then fatal s ''PLTE chunk specified for non-palette image type''
         else compile_PLTE E s)
      else if pp = IDAT then
        (if count s IMAGE \<noteq> 0
         then fatal s (''can'' @ [CHR 0x27] @ ''t mix IDAT and IMAGE specs'')
         else if prevchunk s \<noteq> Some IDAT \<and> count s pp \<noteq> 0
         then fatal s ''IDAT chunks must be contiguous''
         else
           (case (if count s IDAT = 0 then png E (Write_info (info s)) s else Inr s) of
              Inl e \<Rightarrow> Inl e
            | Inr s1 \<Rightarrow> compile_IDAT E s1))
      else if pp = cHRM then
        (if count s PLTE \<noteq> 0 \<or> count s IDAT \<noteq> 0
         then fatal s ''cHRM chunk must come before PLTE and IDAT''
         else compile_cHRM E s)
      else if pp = gAMA then
        (if count s PLTE \<noteq> 0 \<or> count s IDAT \<noteq> 0
         then fatal s ''gAMA chunk must come before PLTE and IDAT''
         else
           (case get_token s of
              Inl e \<Rightarrow> Inl e
            | Inr (ok1, s1) \<Rightarrow>
           (case double_numeric E ok1 s1 of
              Inl e \<Rightarrow> Inl e
            | Inr v \<Rightarrow>
           (case png E (Set_gAMA v) s1 of
              Inl e \<Rightarrow> Inl e
            | Inr s2 \<Rightarrow>
           (case get_token s2 of
              Inl e \<Rightarrow> Inl e
            | Inr (ok3, s3) \<Rightarrow>
                if \<not> ok3 \<or> \<not> token_equals ''}'' s3
                then fatal s3 ''bad token in gAMA specification''
                else Inr s3)))))
      else if pp = iCCP then
        (if count s PLTE \<noteq> 0 \<or> count s IDAT \<noteq> 0
         then fatal s ''iCCP chunk must come before PLTE and IDAT''
         else fatal s ''FIXME: iCCP chunk type is not handled yet'')
      else if pp = sBIT then
        (if count s PLTE \<noteq> 0 \<or> count s IDAT \<noteq> 0
         then fatal s ''sBIT chunk must come before PLTE and IDAT''
         else fatal s ''FIXME: sBIT chunk type is not handled yet'')
      else if pp = sRGB then
        (if count s PLTE \<noteq> 0 \<or> count s IDAT \<noteq> 0
         then fatal s ''sRGB chunk must come before PLTE and IDAT''
         else
           (case get_token s of
              Inl e \<Rightarrow> Inl e
            | Inr (ok1, s1) \<Rightarrow>
           (case byte_numeric (abi E) ok1 s1 of
              Inl e \<Rightarrow> Inl e
            | Inr v \<Rightarrow>
           (case png E (Set_sRGB v) s1 of
              Inl e \<Rightarrow> Inl e
            | Inr s2 \<Rightarrow>
           (case get_token s2 of
              Inl e \<Rightarrow> Inl e
            | Inr (ok3, s3) \<Rightarrow>
                if \<not> ok3 \<or> \<not> token_equals ''}'' s3
                then fatal s3 ''bad token in sRGB specification''
                else Inr s3)))))
      else if pp = bKGD then
        (if count s IDAT \<noteq> 0
         then fatal s ''bKGD chunk must come between PLTE (if any) and IDAT''
         else fatal s ''FIXME: bKGD chunk type is not handled yet'')
      else if pp = hIST then
        (if count s PLTE = 0 \<or> count s IDAT \<noteq> 0
         then fatal s ''bKGD chunk must come between PLTE and IDAT''
         else fatal s ''FIXME: hIST chunk type is not handled yet'')
      else if pp = tRNS then
        (if count s IDAT \<noteq> 0
         then fatal s ''tRNS chunk must come between PLTE (if any) and IDAT''
         else fatal s ''FIXME: tRNS chunk type is not handled yet'')
      else if pp = pHYs then
        (if count s IDAT \<noteq> 0 then fatal s ''pHYs chunk must come before IDAT''
         else fatal s ''FIXME: pHYs chunk type is not handled yet'')
      else if pp = sPLT then
        (if count s IDAT \<noteq> 0 then fatal s ''sPLT chunk must come before IDAT''
         else fatal s ''FIXME: sPLT chunk type is not handled yet'')
      else if pp = tIME then fatal s ''FIXME: tIME chunk type is not handled yet''
      else if pp = iTXt then fatal s ''FIXME: iTXt chunk type is not handled yet''
      else if pp = tEXt then fatal s ''FIXME: tEXt chunk type is not handled yet''
      else if pp = zTXt then fatal s ''FIXME: zTXt chunk type is not handled yet''
      else if pp = oFFs then
        (if count s IDAT \<noteq> 0 then fatal s ''oFFs chunk must come before IDAT''
         else fatal s ''FIXME: oFFs chunk type is not handled yet'')
      else if pp = pCAL then
        (if count s IDAT \<noteq> 0 then fatal s ''pCAL chunk must come before IDAT''
         else fatal s ''FIXME: pCAL chunk type is not handled yet'')
      else if pp = sCAL then
        (if count s IDAT \<noteq> 0 then fatal s ''sCAL chunk must come before IDAT''
         else fatal s ''FIXME: sCAL chunk type is not handled yet'')
      else if pp = gIFg then fatal s ''FIXME: gIFg chunk type is not handled yet''
      else if pp = gIFt then fatal s ''FIXME: gIFt chunk type is not handled yet''
      else if pp = gIFx then fatal s ''FIXME: gIFx chunk type is not handled yet''
      else if pp = fRAc then fatal s ''FIXME: fRAc chunk type is not handled yet''
      else if pp = IMAGE then
        (if count s IDAT \<noteq> 0
         then fatal s (''can'' @ [CHR 0x27] @ ''t mix IDAT and IMAGE specs'')
         else
           (case (if count s IMAGE = 0 then png E (Write_info (info s)) s else Inr s) of
              Inl e \<Rightarrow> Inl e
            | Inr s1 \<Rightarrow>
           (case compile_IMAGE E s1 of
              Inl e \<Rightarrow> Inl e
            | Inr s2 \<Rightarrow> Inr (s2\<lparr>counts := (counts s2)(IDAT := count s2 IDAT + 1)\<rparr>))))
      else if pp = PRIVATE then fatal s ''FIXME: private chunk types are not handled yet''
      else Inr s)"

text \<open>
  The body of the main loop: \<open>token_buffer\<close> holds the token that \<open>get_token\<close> has
  just returned, which is looked up as a chunk name.
\<close>

definition pngc_chunk :: "env \<Rightarrow> state \<Rightarrow> error + state" where
  "pngc_chunk E s =
     (case find_chunk (token s) properties 0 of
        None \<Rightarrow> fatal s ''unknown chunk type''
      | Some pp \<Rightarrow>
          (case get_token s of
             Inl e \<Rightarrow> Inl e
           | Inr (ok, s1) \<Rightarrow>
               if \<not> ok then fatal s1 ''unexpected EOF''
               else if \<not> token_equals ''{'' s1 then fatal s1 ''missing chunk delimiter''
               else if \<not> multiple_ok pp \<and> count s1 pp > 0
               then fatal s1 ''illegal repeated chunk''
               else
                 (case compile_chunk E pp s1 of
                    Inl e \<Rightarrow> Inl e
                  | Inr s2 \<Rightarrow>
                      Inr (s2\<lparr>prevchunk := Some pp,
                              counts := (counts s2)(pp := count s2 pp + 1)\<rparr>))))"

text \<open>No chunk compiler gives input back.\<close>

lemma png_unread: "png E c s = Inr s' \<Longrightarrow> unread s' = unread s"
  by (auto simp: png_def split: if_splits)

lemma collect_loop_Cons:
  assumes "collect_loop E pixperchar l bits quanta nbits ocount (c # cs) = Inr r"
  shows "r = (nbits, bits, cs)
       \<or> (\<exists>bits' quanta' nbits' ocount'.
             collect_loop E pixperchar l bits' quanta' nbits' ocount' cs = Inr r)"
proof (cases "c = NUL \<or> c = CHR ''}''")
  case True
  with assms show ?thesis by (auto simp: NUL_def)
next
  case False
  show ?thesis
  proof (cases "isspace c")
    case True
    with assms False show ?thesis by auto
  next
    case nsp: False
    show ?thesis
    proof (cases pixperchar)
      case True
      with assms False nsp show ?thesis
        by (simp add: Let_def split: if_splits option.splits) blast+
    next
      case hex: False
      with assms False nsp show ?thesis
        by (simp add: Let_def split: if_splits option.splits) blast+
    qed
  qed
qed

lemma collect_loop_shorter:
  "collect_loop E pixperchar l bits quanta nbits ocount cs = Inr (nbits', bits', rest)
     \<Longrightarrow> length rest \<le> length cs"
proof (induction cs arbitrary: bits quanta nbits ocount)
  case Nil
  then show ?case by simp
next
  case (Cons c cs)
  from collect_loop_Cons [OF Cons.prems] show ?case
  proof
    assume "(nbits', bits', rest) = (nbits, bits, cs)"
    then show ?thesis by simp
  next
    assume "\<exists>b q n oc. collect_loop E pixperchar l b q n oc cs = Inr (nbits', bits', rest)"
    then obtain b q n oc where
      "collect_loop E pixperchar l b q n oc cs = Inr (nbits', bits', rest)" by blast
    then have "length rest \<le> length cs" by (rule Cons.IH)
    then show ?thesis by simp
  qed
qed

lemma collect_data_unread_le:
  assumes "collect_data E pixperchar s = Inr (nbits, bits, s')"
  shows "unread s' \<le> unread s"
proof -
  from assms obtain rest where
    "collect_loop E pixperchar (linenum s) (xalloc E MEMORY_QUANTUM) 1 0 0 (yyin s)
       = Inr (nbits, bits, rest)" and s': "s' = s\<lparr>yyin := rest\<rparr>"
    by (auto simp: collect_data_def split: sum.splits)
  then have "length rest \<le> length (yyin s)" by (auto dest: collect_loop_shorter)
  with s' show ?thesis by (simp add: unread_def)
qed

lemma compile_IHDR_loop_unread_le:
  "compile_IHDR_loop M s = Inr s' \<Longrightarrow> unread s' \<le> unread s"
proof (induction M s rule: compile_IHDR_loop.induct)
  case (1 M s)
  from "1.prems" obtain inner s1 where g: "get_inner_token s = Inr (inner, s1)"
    by (subst (asm) compile_IHDR_loop.simps) (auto split: sum.splits)
  then have le1: "unread s1 < unread s" by (rule get_inner_token_unread_less)
  show ?case
  proof (cases inner)
    case False
    with "1.prems" g have "s' = s1"
      by (subst (asm) compile_IHDR_loop.simps) simp
    with le1 show ?thesis by simp
  next
    case True
    with "1.prems" g obtain s2 where t: "IHDR_token M s1 = Inr s2"
      and r: "compile_IHDR_loop M s2 = Inr s'"
      by (subst (asm) compile_IHDR_loop.simps) (auto split: sum.splits)
    from t have "unread s2 \<le> unread s1" by (rule IHDR_token_unread_le)
    moreover have "unread s' \<le> unread s2"
      using "1.IH" [OF g refl _ t r] True by simp
    ultimately show ?thesis using le1 by simp
  qed
qed

lemma compile_PLTE_loop_unread_le:
  "compile_PLTE_loop M palette ncolors s = Inr (palette', ncolors', s')
     \<Longrightarrow> unread s' \<le> unread s"
proof (induction M palette ncolors s rule: compile_PLTE_loop.induct)
  case (1 M palette ncolors s)
  from "1.prems" obtain inner s1 where g: "get_inner_token s = Inr (inner, s1)"
    by (subst (asm) compile_PLTE_loop.simps) (auto split: sum.splits)
  then have le1: "unread s1 < unread s" by (rule get_inner_token_unread_less)
  show ?case
  proof (cases inner)
    case False
    with "1.prems" g have "s' = s1"
      by (subst (asm) compile_PLTE_loop.simps) simp
    with le1 show ?thesis by simp
  next
    case True
    with "1.prems" g obtain p2 s2 where t: "PLTE_entry M palette ncolors s1 = Inr (p2, s2)"
      and r: "compile_PLTE_loop M p2 (ncolors + 1) s2 = Inr (palette', ncolors', s')"
      by (subst (asm) compile_PLTE_loop.simps) (auto split: sum.splits)
    from t have "unread s2 \<le> unread s1" by (rule PLTE_entry_unread_le)
    moreover have "unread s' \<le> unread s2"
      using "1.IH" [OF g refl _ t refl r] True by simp
    ultimately show ?thesis using le1 by simp
  qed
qed

lemma compile_cHRM_loop_unread_le:
  "compile_cHRM_loop E cmask s = Inr (cmask', s') \<Longrightarrow> unread s' \<le> unread s"
proof (induction E cmask s rule: compile_cHRM_loop.induct)
  case (1 E cmask s)
  from "1.prems" obtain inner s1 where g: "get_inner_token s = Inr (inner, s1)"
    by (subst (asm) compile_cHRM_loop.simps) (auto split: sum.splits)
  then have le1: "unread s1 < unread s" by (rule get_inner_token_unread_less)
  show ?case
  proof (cases inner)
    case False
    with "1.prems" g have "s' = s1"
      by (subst (asm) compile_cHRM_loop.simps) simp
    with le1 show ?thesis by simp
  next
    case True
    with "1.prems" g obtain c2 s2 where t: "cHRM_color E cmask s1 = Inr (c2, s2)"
      and r: "compile_cHRM_loop E c2 s2 = Inr (cmask', s')"
      by (subst (asm) compile_cHRM_loop.simps) (auto split: sum.splits)
    from t have "unread s2 \<le> unread s1" by (rule cHRM_color_unread_le)
    moreover have "unread s' \<le> unread s2"
      using "1.IH" [OF g refl _ t refl r] True by simp
    ultimately show ?thesis using le1 by simp
  qed
qed

lemma compile_IHDR_unread_le: "compile_IHDR M s = Inr s' \<Longrightarrow> unread s' \<le> unread s"
  by (auto simp: compile_IHDR_def fatal_def split: sum.splits if_splits
           dest!: compile_IHDR_loop_unread_le)

lemma compile_PLTE_unread_le: "compile_PLTE E s = Inr s' \<Longrightarrow> unread s' \<le> unread s"
  by (auto simp: compile_PLTE_def split: sum.splits prod.splits
           dest!: compile_PLTE_loop_unread_le png_unread)

lemma compile_IDAT_unread_le: "compile_IDAT E s = Inr s' \<Longrightarrow> unread s' \<le> unread s"
  by (auto simp: compile_IDAT_def split: sum.splits prod.splits
           dest!: collect_data_unread_le png_unread)

lemma compile_cHRM_unread_le: "compile_cHRM E s = Inr s' \<Longrightarrow> unread s' \<le> unread s"
  by (auto simp: compile_cHRM_def fatal_def split: sum.splits prod.splits if_splits
           dest!: compile_cHRM_loop_unread_le)

lemma compile_IMAGE_unread_le: "compile_IMAGE E s = Inr s' \<Longrightarrow> unread s' \<le> unread s"
  by (auto simp: compile_IMAGE_def fatal_def
           split: sum.splits prod.splits option.splits if_splits
           dest!: collect_data_unread_le png_unread)

lemmas chunk_ids =
  IHDR_def PLTE_def IDAT_def cHRM_def gAMA_def iCCP_def sBIT_def sRGB_def bKGD_def hIST_def
  tRNS_def pHYs_def sPLT_def tIME_def iTXt_def tEXt_def zTXt_def oFFs_def pCAL_def sCAL_def
  gIFg_def gIFt_def gIFx_def fRAc_def IMAGE_def PRIVATE_def

lemma unread_counts_update [simp]: "unread (s\<lparr>counts := f\<rparr>) = unread s"
  by (simp add: unread_def)

lemma unread_prevchunk_update [simp]: "unread (s\<lparr>prevchunk := p\<rparr>) = unread s"
  by (simp add: unread_def)

lemma value_chunk_unread_le:
  assumes "get_token s = Inr (ok1, s1)" "png E c s1 = Inr s2" "get_token s2 = Inr (ok3, s')"
  shows "unread s' \<le> unread s"
proof -
  from assms have "unread s1 \<le> unread s" "unread s2 = unread s1" "unread s' \<le> unread s2"
    by (auto dest: get_token_unread_le png_unread)
  then show ?thesis by simp
qed

lemma compile_chunk_unread_le:
  assumes "compile_chunk E pp s = Inr s'"
  shows "unread s' \<le> unread s"
proof -
  consider "pp = IHDR" | "pp = PLTE" | "pp = IDAT" | "pp = cHRM" | "pp = gAMA" | "pp = sRGB"
    | "pp = IMAGE" | "pp \<notin> {IHDR, PLTE, IDAT, cHRM, gAMA, sRGB, IMAGE}" by auto
  then show ?thesis
  proof cases
    case 1
    with assms show ?thesis
      by (auto simp: compile_chunk_def fatal_def split: if_splits dest: compile_IHDR_unread_le)
  next
    case 2
    with assms have "compile_chunk E PLTE s = Inr s'" by simp
    then show ?thesis
      by (auto simp: compile_chunk_def fatal_def chunk_ids split: if_splits
               dest: compile_PLTE_unread_le)
  next
    case 3
    with assms have "compile_chunk E IDAT s = Inr s'" by simp
    then show ?thesis
      by (auto simp: compile_chunk_def fatal_def chunk_ids split: if_splits sum.splits
               dest!: png_unread compile_IDAT_unread_le)
  next
    case 4
    with assms have "compile_chunk E cHRM s = Inr s'" by simp
    then show ?thesis
      by (auto simp: compile_chunk_def fatal_def chunk_ids split: if_splits
               dest: compile_cHRM_unread_le)
  next
    case 5
    with assms have "compile_chunk E gAMA s = Inr s'" by simp
    then show ?thesis
      by (auto simp: compile_chunk_def fatal_def chunk_ids
               split: if_splits sum.splits prod.splits intro: value_chunk_unread_le)
  next
    case 6
    with assms have "compile_chunk E sRGB s = Inr s'" by simp
    then show ?thesis
      by (auto simp: compile_chunk_def fatal_def chunk_ids
               split: if_splits sum.splits prod.splits intro: value_chunk_unread_le)
  next
    case 7
    with assms have "compile_chunk E IMAGE s = Inr s'" by simp
    then show ?thesis
      by (auto simp: compile_chunk_def fatal_def chunk_ids split: if_splits sum.splits
               dest!: png_unread compile_IMAGE_unread_le)
  next
    case 8
    with assms show ?thesis
      by (auto simp: compile_chunk_def fatal_def split: if_splits)
  qed
qed

lemma pngc_chunk_unread_le:
  assumes "pngc_chunk E s = Inr s'"
  shows "unread s' \<le> unread s"
proof -
  from assms obtain pp ok s1 s2 where "get_token s = Inr (ok, s1)"
    "compile_chunk E pp s1 = Inr s2"
    "s' = s2\<lparr>prevchunk := Some pp, counts := (counts s2)(pp := count s2 pp + 1)\<rparr>"
    by (auto simp: pngc_chunk_def fatal_def split: option.splits sum.splits prod.splits if_splits)
  then have "unread s1 \<le> unread s" "unread s2 \<le> unread s1" "unread s' = unread s2"
    by (auto dest: get_token_unread_le compile_chunk_unread_le simp: unread_def)
  then show ?thesis by simp
qed

text \<open>The main loop of \<open>pngc\<close>; it returns the state in which the input has ended.\<close>

function pngc_loop :: "env \<Rightarrow> state \<Rightarrow> error + state" where
  "pngc_loop E s =
     (case get_token s of
        Inl e \<Rightarrow> Inl e
      | Inr (ok, s1) \<Rightarrow>
          if \<not> ok then Inr s1
          else (case pngc_chunk E s1 of
                  Inl e \<Rightarrow> Inl e
                | Inr s2 \<Rightarrow> pngc_loop E s2))"
  by pat_completeness auto
termination
proof (relation "measure (\<lambda>(E, s). unread s)")
  show "wf (measure (\<lambda>(E, s). unread s))" by simp
next
  fix E :: env and s x2 ok s1 s2
  assume "get_token s = Inr x2" "(ok, s1) = x2" "\<not> \<not> ok" "pngc_chunk E s1 = Inr s2"
  then have "unread s1 < unread s" "unread s2 \<le> unread s1"
    by (auto dest: get_token_unread_less pngc_chunk_unread_le)
  then show "((E, s2), E, s) \<in> measure (\<lambda>(E, s). unread s)" by simp
qed

declare pngc_loop.simps [simp del]

text \<open>The checks at the end of the file, and the call that finishes the PNG.\<close>

definition pngc_end :: "env \<Rightarrow> state \<Rightarrow> error + state" where
  "pngc_end E s =
     (let s1 = s\<lparr>linenum := EOF\<rparr>
      in if count s1 PLTE = 0 \<and> color_type (info s1) AND PNG_COLOR_MASK_PALETTE \<noteq> 0
         then fatal s1 ''palette property set, but no PLTE chunk found''
         else if count s1 IDAT = 0 then fatal s1 ''no image data''
         else png E (Write_end (info s1)) s1)"

text \<open>
  The state in which \<open>main\<close> calls \<open>pngc\<close>: static storage is zero, and so is the
  image description that \<open>png_create_info_struct\<close> returns.
\<close>

definition initial_info :: png_info where
  "initial_info =
     \<lparr>width = 0, height = 0, bit_depth = 0, color_type = 0, interlace_type = 0,
      num_palette = 0, valid = 0, x_white = [], y_white = [], x_red = [], y_red = [],
      x_green = [], y_green = [], x_blue = [], y_blue = []\<rparr>"

definition initial_state :: "string \<Rightarrow> state" where
  "initial_state input =
     \<lparr>yyin = input, linenum = 0, token_buffer = replicate token_buffer_size NUL,
      pushed = False, info = initial_info, counts = (\<lambda>pp. 0), prevchunk = None, out = []\<rparr>"

definition pngc :: "env \<Rightarrow> string \<Rightarrow> error + state" where
  "pngc E input =
     (case pngc_loop E (initial_state input) of
        Inl e \<Rightarrow> Inl e
      | Inr s \<Rightarrow> pngc_end E s)"

text \<open>
  The value that \<open>pngc\<close> returns: \<open>2 - errtype\<close> after a \<open>longjmp\<close>, where \<open>fatal\<close>
  jumps with 2 and libpng with 1, and 0 at the end of a compile.
\<close>

definition return_value :: "error + state \<Rightarrow> int option" where
  "return_value r =
     (case r of
        Inl (Fatal l msg) \<Rightarrow> Some (2 - 2)
      | Inl Croak \<Rightarrow> Some (2 - 1)
      | Inl (Undefined what) \<Rightarrow> None
      | Inr s \<Rightarrow> Some 0)"

subsection \<open>States and observations for the properties\<close>

text \<open>
  \<open>libpng_accepts\<close> is an environment of the data model LP64 in which fresh memory is
  zero and libpng accepts every call; \<open>libpng_accepts\<lparr>abi := M\<rparr>\<close> is the same
  environment in the data model \<open>M\<close>.
\<close>

definition libpng_accepts :: env where
  "libpng_accepts =
     \<lparr>abi = LP64, fresh = (\<lambda>i. 0), strtod_ok = (\<lambda>t. True), png_ok = (\<lambda>cs c. True)\<rparr>"

text \<open>
  A state of the main loop after the header and one raw pixel-data chunk of a 1 by 1
  image: the token \<open>t\<close> has just been read, and the input goes on with \<open>input\<close>.
\<close>

definition after_pixels :: "string \<Rightarrow> string \<Rightarrow> state" where
  "after_pixels t input =
     (initial_state input)
       \<lparr>token_buffer := t @ replicate (token_buffer_size - length t) NUL,
        info := initial_info\<lparr>width := 1, height := 1, bit_depth := 8\<rparr>,
        counts := (\<lambda>pp. if pp = IHDR \<or> pp = IDAT then 1 else 0),
        prevchunk := Some IDAT,
        out := [Write_info (initial_info\<lparr>width := 1, height := 1, bit_depth := 8\<rparr>),
                Write_chunk ''IDAT'' [0]]\<rparr>"








section \<open>Properties of the compiler\<close>

subsection \<open>Evaluating the model\<close>

text \<open>The compiler is run on concrete texts with the simplifier.\<close>

lemmas ctype_defs = isdigit_def isupper_def islower_def isalpha_def isxdigit_def isspace_def
  ispunct_def ord_def NUL_def newline_def

lemma replicate_numeral: "replicate (numeral k) x = x # replicate (pred_numeral k) x"
  by (simp add: numeral_eq_Suc)

lemma length_xalloc [simp]: "length (xalloc E n) = n"
  by (simp add: xalloc_def)

lemma nth_xalloc [simp]: "i < n \<Longrightarrow> xalloc E n ! i = fresh E i"
  by (simp add: xalloc_def)

lemma xalloc_not_Nil [simp]: "0 < n \<Longrightarrow> xalloc E n \<noteq> []"
  by (simp add: xalloc_def)

lemma unat_byte_of_nat: "n < 256 \<Longrightarrow> unat (of_nat n :: byte) = n"
  by (simp add: unat_of_nat)

lemmas lex_eval = get_token_def get_inner_token_def require_or_die_def token_def cstr_def
  token_equals_def token_buffer_size_def ctype_defs Let_def replicate_numeral fatal_def

lemmas number_eval = long_numeric_def byte_numeric_def double_numeric_def strtoul_def
  is_base_digit_def digit_value_def ULONG_MAX_def

lemmas run_eval = pngc_def pngc_loop.simps pngc_chunk_def initial_state_def initial_info_def
  properties_def compile_chunk_def chunk_ids count_def multiple_ok_def png_def
  compile_IDAT_def collect_data_def MEMORY_QUANTUM_def pngc_end_def
  PNG_COLOR_MASK_PALETTE_def PNG_COLOR_MASK_COLOR_def PNG_COLOR_MASK_ALPHA_def
  PNG_INTERLACE_NONE_def PNG_INTERLACE_ADAM7_def EOF_def hex_value_def dense_value_def
  compile_IHDR_def compile_IHDR_loop.simps IHDR_token_def
  compile_PLTE_def compile_PLTE_loop.simps PLTE_entry_def
  compile_IMAGE_def sample_size_def sample_per_char_def image_size_def
  PNG_COLOR_TYPE_GRAY_def PNG_COLOR_TYPE_PALETTE_def PNG_COLOR_TYPE_RGB_def
  PNG_COLOR_TYPE_RGB_ALPHA_def PNG_COLOR_TYPE_GRAY_ALPHA_def

subsection \<open>What the functions leave unchanged\<close>

text \<open>
  The lexer changes neither the chunk counts, nor the previous chunk, nor the calls of
  libpng, nor the image description; a chunk compiler that returns has added its calls.
\<close>

lemma get_token_frame:
  "get_token s = Inr (ok, s') \<Longrightarrow>
     counts s' = counts s \<and> prevchunk s' = prevchunk s \<and> out s' = out s \<and> info s' = info s"
  by (auto simp: get_token_def split: if_splits prod.splits option.splits scan.splits)

lemma get_inner_token_frame:
  "get_inner_token s = Inr (inner, s') \<Longrightarrow>
     counts s' = counts s \<and> prevchunk s' = prevchunk s \<and> out s' = out s \<and> info s' = info s"
  by (auto simp: get_inner_token_def fatal_def split: sum.splits if_splits dest: get_token_frame)

lemma require_or_die_frame:
  "require_or_die str s = Inr s' \<Longrightarrow>
     counts s' = counts s \<and> prevchunk s' = prevchunk s \<and> out s' = out s \<and> info s' = info s"
  by (auto simp: require_or_die_def fatal_def split: sum.splits if_splits dest: get_token_frame)

lemma png_frame:
  "png E c s = Inr s' \<Longrightarrow>
     counts s' = counts s \<and> prevchunk s' = prevchunk s \<and> out s' = out s @ [c] \<and> info s' = info s"
  by (auto simp: png_def split: if_splits)

lemma collect_data_frame:
  "collect_data E pixperchar s = Inr (nbits, bits, s') \<Longrightarrow>
     counts s' = counts s \<and> prevchunk s' = prevchunk s \<and> out s' = out s \<and> info s' = info s"
  by (auto simp: collect_data_def split: sum.splits)


lemma PLTE_entry_frame:
  assumes "PLTE_entry M palette ncolors s = Inr (palette', s')"
  shows "counts s' = counts s \<and> prevchunk s' = prevchunk s \<and> out s' = out s \<and> info s' = info s"
proof -
  from assms obtain ok2 s2 s3 ok4 s4 s5 ok6 s6 where
    "get_token s = Inr (ok2, s2)" "require_or_die '','' s2 = Inr s3"
    "get_token s3 = Inr (ok4, s4)" "require_or_die '','' s4 = Inr s5"
    "get_token s5 = Inr (ok6, s6)" "require_or_die '')'' s6 = Inr s'"
    by (auto simp: PLTE_entry_def fatal_def split: if_splits sum.splits prod.splits)
  then show ?thesis
    by (auto dest!: get_token_frame require_or_die_frame)
qed




lemma compile_PLTE_loop_frame:
  "compile_PLTE_loop M palette ncolors s = Inr (palette', ncolors', s') \<Longrightarrow>
     counts s' = counts s \<and> prevchunk s' = prevchunk s \<and> out s' = out s \<and> info s' = info s"
proof (induction M palette ncolors s rule: compile_PLTE_loop.induct)
  case (1 M palette ncolors s)
  from "1.prems" obtain inner s1 where g: "get_inner_token s = Inr (inner, s1)"
    by (subst (asm) compile_PLTE_loop.simps) (auto split: sum.splits)
  then have f1: "counts s1 = counts s \<and> prevchunk s1 = prevchunk s \<and> out s1 = out s
                 \<and> info s1 = info s"
    by (auto dest: get_inner_token_frame)
  show ?case
  proof (cases inner)
    case False
    with "1.prems" g have "s' = s1"
      by (subst (asm) compile_PLTE_loop.simps) simp
    with f1 show ?thesis by simp
  next
    case True
    with "1.prems" g obtain p2 s2 where t: "PLTE_entry M palette ncolors s1 = Inr (p2, s2)"
      and r: "compile_PLTE_loop M p2 (ncolors + 1) s2 = Inr (palette', ncolors', s')"
      by (subst (asm) compile_PLTE_loop.simps) (auto split: sum.splits)
    from t have "counts s2 = counts s1 \<and> prevchunk s2 = prevchunk s1 \<and> out s2 = out s1
                 \<and> info s2 = info s1"
      by (rule PLTE_entry_frame)
    moreover have "counts s' = counts s2 \<and> prevchunk s' = prevchunk s2 \<and> out s' = out s2
                   \<and> info s' = info s2"
      using "1.IH" [OF g refl _ t refl r] True by simp
    ultimately show ?thesis using f1 by simp
  qed
qed









lemma pngc_chunk_Inr:
  assumes "pngc_chunk E s = Inr s'"
  obtains pp s1 s2 where "find_chunk (token s) properties 0 = Some pp"
    and "get_token s = Inr (True, s1)" and "compile_chunk E pp s1 = Inr s2"
    and "s' = s2\<lparr>prevchunk := Some pp, counts := (counts s2)(pp := count s2 pp + 1)\<rparr>"
  using assms
  by (auto simp: pngc_chunk_def fatal_def split: option.splits sum.splits prod.splits if_splits)

lemma find_chunk_properties:
  assumes "find_chunk t properties 0 = Some pp"
  shows "pp < 26 \<and> fst (properties ! pp) = t \<and> (t = ''IDAT'' \<longleftrightarrow> pp = IDAT)"
  using assms by (simp add: properties_def IDAT_def split: if_splits)

text \<open>The errors of \<open>get_token\<close>.\<close>

lemma quoted_loop_fatal:
  "quoted_loop w tp buf cs = Scan_fatal m \<Longrightarrow>
     m = ''runaway string'' \<or> m = ''string token too long''"
  by (induction cs arbitrary: tp buf) (auto split: if_splits)

lemma token_loop_fatal:
  "token_loop tp buf cs = Scan_fatal m \<Longrightarrow> m = ''token too long''"
  by (induction cs arbitrary: tp buf) (auto split: if_splits)

lemma get_token_error:
  assumes "get_token s = Inl e"
  shows "(\<exists>l m. e = Fatal l m \<and> (m = ''runaway string'' \<or> m = ''string token too long''
                                    \<or> m = ''token too long''))
       \<or> (\<exists>what. e = Undefined what)"
  using assms
  by (auto simp: get_token_def split: if_splits prod.splits option.splits scan.splits
           dest: quoted_loop_fatal token_loop_fatal)

text \<open>
  Once pixel data have been compiled, the \<open>switch\<close> of \<open>pngc\<close> calls \<open>fatal\<close> for
  every chunk type but IDAT, and never with the message about contiguous chunks.
\<close>

lemma compile_chunk_after_pixels:
  assumes "count s IDAT \<noteq> 0" and "prevchunk s \<noteq> None" and "pp < 26" and "pp \<noteq> IDAT"
  shows "\<exists>m. compile_chunk E pp s = Inl (Fatal (linenum s) m)
             \<and> m \<noteq> ''IDAT chunks must be contiguous''"
proof -
  from assms(3) have "pp \<in> {0, 1, 2, 3, 4, 5, 6, 7, 8, 9, 10, 11, 12, 13, 14, 15, 16, 17, 18,
                           19, 20, 21, 22, 23, 24, 25}"
    by simp arith
  with assms(1,2,4) show ?thesis
    by (auto simp: compile_chunk_def fatal_def chunk_ids)
qed

subsection \<open>The dense character encoding\<close>

lemma dense_value_Some: "isdigit c \<or> isalpha c \<Longrightarrow> \<exists>v. dense_value c = Some v"
  by (auto simp: dense_value_def)

lemma take_Suc_update: "n < length xs \<Longrightarrow> take (Suc n) (xs[n := v]) = take n xs @ [v]"
  by (simp add: take_Suc_conv_app_nth)

text \<open>
  The values of the characters in the one-character-per-byte format: a digit \<open>0\<close> to
  \<open>9\<close> has the values 0 to 9, an upper-case letter the values 36 to 61 and a lower-case
  letter the values 10 to 35; no other character has a value.
\<close>

lemma dense_value_mapping:
  "(isdigit c \<longrightarrow>
      (\<exists>v. dense_value c = Some v \<and> unat v = ord c - ord (CHR ''0'') \<and> unat v \<le> 9))
 \<and> (isupper c \<longrightarrow>
      (\<exists>v. dense_value c = Some v \<and> unat v = ord c - ord (CHR ''A'') + 36
           \<and> 36 \<le> unat v \<and> unat v \<le> 61))
 \<and> (islower c \<longrightarrow>
      (\<exists>v. dense_value c = Some v \<and> unat v = ord c - ord (CHR ''a'') + 10
           \<and> 10 \<le> unat v \<and> unat v \<le> 35))
 \<and> (\<not> isdigit c \<and> \<not> isupper c \<and> \<not> islower c \<longrightarrow> dense_value c = None)"
proof (intro conjI impI)
  assume d: "isdigit c"
  then have "ord c - 48 < 256" unfolding isdigit_def by arith
  then have "unat (of_nat (ord c - 48) :: byte) = ord c - 48" by (rule unat_byte_of_nat)
  with d show "\<exists>v. dense_value c = Some v \<and> unat v = ord c - ord (CHR ''0'') \<and> unat v \<le> 9"
    by (auto simp: dense_value_def isdigit_def ord_def)
next
  assume u: "isupper c"
  then have "ord c - 65 + 36 < 256" unfolding isupper_def by arith
  then have "unat (of_nat (ord c - 65 + 36) :: byte) = ord c - 65 + 36"
    by (rule unat_byte_of_nat)
  with u show "\<exists>v. dense_value c = Some v \<and> unat v = ord c - ord (CHR ''A'') + 36
                 \<and> 36 \<le> unat v \<and> unat v \<le> 61"
    by (auto simp: dense_value_def isupper_def isalpha_def isdigit_def ord_def)
next
  assume lo: "islower c"
  then have "ord c - 97 + 10 < 256" unfolding islower_def by arith
  then have "unat (of_nat (ord c - 97 + 10) :: byte) = ord c - 97 + 10"
    by (rule unat_byte_of_nat)
  with lo show "\<exists>v. dense_value c = Some v \<and> unat v = ord c - ord (CHR ''a'') + 10
                  \<and> 10 \<le> unat v \<and> unat v \<le> 35"
    by (auto simp: dense_value_def islower_def isupper_def isalpha_def isdigit_def ord_def)
next
  assume "\<not> isdigit c \<and> \<not> isupper c \<and> \<not> islower c"
  then show "dense_value c = None" by (simp add: dense_value_def isalpha_def)
qed

text \<open>
  A segment of letters, digits and white space in the one-character-per-byte format: the
  bytes collected are the values of its letters and digits, in order. The loop ends at
  the closing brace, and it ends in the same way at a NUL character, whose value 0 makes
  the condition \<open>(c = fgetc(yyin))\<close> of the \<open>while\<close> false.
\<close>

lemma dense_collect_loop:
  assumes "\<forall>c\<in>set cs. isdigit c \<or> isalpha c \<or> isspace c"
      and "nbits + length (filter (\<lambda>c. \<not> isspace c) cs) \<le> length bits"
      and "length bits \<le> quanta * MEMORY_QUANTUM"
      and "t = CHR ''}'' \<or> t = NUL"
  shows "\<exists>bits'. collect_loop E True l bits quanta nbits ocount (cs @ t # rest)
                    = Inr (nbits + length (filter (\<lambda>c. \<not> isspace c) cs), bits', rest)
               \<and> take (nbits + length (filter (\<lambda>c. \<not> isspace c) cs)) bits'
                   = take nbits bits @ map (\<lambda>c. the (dense_value c)) (filter (\<lambda>c. \<not> isspace c) cs)"
  using assms(1-3)
proof (induction cs arbitrary: bits nbits)
  case Nil
  with assms(4) show ?case by auto
next
  case (Cons c cs)
  let ?f = "filter (\<lambda>c. \<not> isspace c)"
  show ?case
  proof (cases "isspace c")
    case True
    then have p: "c \<noteq> NUL" "c \<noteq> CHR ''}''" by (auto simp: ctype_defs)
    from Cons.prems True have
      "\<exists>bits'. collect_loop E True l bits quanta nbits ocount (cs @ t # rest)
                    = Inr (nbits + length (?f cs), bits', rest)
               \<and> take (nbits + length (?f cs)) bits'
                   = take nbits bits @ map (\<lambda>c. the (dense_value c)) (?f cs)"
      by (intro Cons.IH) auto
    with True p show ?thesis by simp
  next
    case False
    with Cons.prems have a: "isdigit c \<or> isalpha c" by simp
    then have p: "c \<noteq> NUL" "c \<noteq> CHR ''}''" "\<not> isspace c"
      by (auto simp: ctype_defs)
    from dense_value_Some [OF a] obtain v where v: "dense_value c = Some v"
      by blast
    from Cons.prems(2) False have inb: "nbits < length bits" by simp
    with Cons.prems(3) have nogrow: "\<not> quanta * MEMORY_QUANTUM < nbits" by simp
    from Cons.prems False have
      "\<exists>bits'. collect_loop E True l (bits[nbits := v]) quanta (nbits + 1) ocount
                  (cs @ t # rest)
                    = Inr (nbits + 1 + length (?f cs), bits', rest)
               \<and> take (nbits + 1 + length (?f cs)) bits'
                   = take (nbits + 1) (bits[nbits := v]) @ map (\<lambda>c. the (dense_value c)) (?f cs)"
      by (intro Cons.IH) auto
    with p v inb nogrow show ?thesis
      by (simp add: Let_def take_Suc_update)
  qed
qed

text \<open>
  Every other character that is not white space, where the segment has not ended before,
  ends the compile with the message about a bad character.
\<close>

lemma dense_collect_bad:
  assumes "\<forall>c\<in>set cs. isdigit c \<or> isalpha c \<or> isspace c"
      and "nbits + length (filter (\<lambda>c. \<not> isspace c) cs) < length bits"
      and "length bits \<le> quanta * MEMORY_QUANTUM"
      and "dense_value c = None" and "c \<noteq> NUL" and "c \<noteq> CHR ''}''" and "\<not> isspace c"
  shows "collect_loop E True l bits quanta nbits ocount (cs @ c # rest)
           = Inl (Fatal l ''bad character in IDAT block'')"
  using assms(1-3)
proof (induction cs arbitrary: bits nbits)
  case Nil
  with assms(4-7) show ?case by (simp add: Let_def)
next
  case (Cons d cs)
  let ?f = "filter (\<lambda>c. \<not> isspace c)"
  show ?case
  proof (cases "isspace d")
    case True
    then have p: "d \<noteq> NUL" "d \<noteq> CHR ''}''" by (auto simp: ctype_defs)
    from Cons.prems True have
      "collect_loop E True l bits quanta nbits ocount (cs @ c # rest)
         = Inl (Fatal l ''bad character in IDAT block'')"
      by (intro Cons.IH) auto
    with True p show ?thesis by simp
  next
    case False
    with Cons.prems have a: "isdigit d \<or> isalpha d" by simp
    then have p: "d \<noteq> NUL" "d \<noteq> CHR ''}''" "\<not> isspace d"
      by (auto simp: ctype_defs)
    from dense_value_Some [OF a] obtain v where v: "dense_value d = Some v"
      by blast
    from Cons.prems(2) False have inb: "nbits < length bits" by simp
    with Cons.prems(3) have nogrow: "\<not> quanta * MEMORY_QUANTUM < nbits" by simp
    from Cons.prems False have
      "collect_loop E True l (bits[nbits := v]) quanta (nbits + 1) ocount (cs @ c # rest)
         = Inl (Fatal l ''bad character in IDAT block'')"
      by (intro Cons.IH) auto
    with p v inb nogrow show ?thesis
      by (simp add: Let_def)
  qed
qed

lemma dense_segment_collected:
  assumes "\<forall>c\<in>set cs. isdigit c \<or> isalpha c \<or> isspace c"
      and "length (filter (\<lambda>c. \<not> isspace c) cs) \<le> MEMORY_QUANTUM"
      and "t = CHR ''}'' \<or> t = NUL"
  shows "\<exists>bits. collect_data E True (s\<lparr>yyin := cs @ t # rest\<rparr>)
                   = Inr (length (filter (\<lambda>c. \<not> isspace c) cs), bits, s\<lparr>yyin := rest\<rparr>)
              \<and> take (length (filter (\<lambda>c. \<not> isspace c) cs)) bits
                  = map (\<lambda>c. the (dense_value c)) (filter (\<lambda>c. \<not> isspace c) cs)"
proof -
  from assms(2) have "0 + length (filter (\<lambda>c. \<not> isspace c) cs) \<le> length (xalloc E MEMORY_QUANTUM)"
    by simp
  moreover have "length (xalloc E MEMORY_QUANTUM) \<le> 1 * MEMORY_QUANTUM" by simp
  ultimately show ?thesis
    using dense_collect_loop
            [OF assms(1) _ _ assms(3), where nbits = 0 and bits = "xalloc E MEMORY_QUANTUM"
               and quanta = 1 and E = E and l = "linenum s" and ocount = 0 and rest = rest]
    by (auto simp: collect_data_def)
qed

text \<open>The 62 characters of the alphabet, decoded as one segment.\<close>

lemma dense_alphabet_collected:
  "map_sum id (\<lambda>(nbits, bits, s). (nbits, take nbits bits))
       (collect_data libpng_accepts True
          (initial_state ''0123456789ABCDEFGHIJKLMNOPQRSTUVWXYZabcdefghijklmnopqrstuvwxyz}''))
     = Inr (62, map of_nat ([0..<10] @ [36..<62] @ [10..<36]))"
proof -
  let ?cs = "''0123456789ABCDEFGHIJKLMNOPQRSTUVWXYZabcdefghijklmnopqrstuvwxyz''"
  let ?k = "length (filter (\<lambda>c. \<not> isspace c) ?cs)"
  have a: "\<forall>c\<in>set ?cs. isdigit c \<or> isalpha c \<or> isspace c"
    by (simp add: ctype_defs)
  have f: "filter (\<lambda>c. \<not> isspace c) ?cs = ?cs"
    by (simp add: ctype_defs)
  have len: "length ?cs = 62" by code_simp
  have n: "?k \<le> MEMORY_QUANTUM" unfolding f len by (simp add: MEMORY_QUANTUM_def)
  have b: "CHR ''}'' = CHR ''}'' \<or> CHR ''}'' = NUL" by simp
  from dense_segment_collected
         [OF a n b, where E = libpng_accepts and s = "initial_state []" and rest = "[]"]
  obtain bits where
    c: "collect_data libpng_accepts True
          ((initial_state [])\<lparr>yyin := ?cs @ CHR ''}'' # []\<rparr>)
        = Inr (?k, bits, (initial_state [])\<lparr>yyin := []\<rparr>)"
    and t: "take ?k bits = map (\<lambda>c. the (dense_value c)) (filter (\<lambda>c. \<not> isspace c) ?cs)"
    by blast
  have s: "(initial_state [])\<lparr>yyin := ?cs @ CHR ''}'' # []\<rparr> = initial_state (?cs @ ''}'')"
    by (simp add: initial_state_def)
  from c t have segment:
    "map_sum id (\<lambda>(nbits, bits, s). (nbits, take nbits bits))
       (collect_data libpng_accepts True (initial_state (?cs @ ''}'')))
     = Inr (62, map (\<lambda>c. the (dense_value c)) ?cs)"
    unfolding s f len by simp
  have vals: "map (\<lambda>c. the (dense_value c)) ?cs
      = map of_nat ([0..<10] @ [36..<62] @ [10..<36])"
    by (simp add: dense_value_def ctype_defs upt_rec)
  from segment show ?thesis
    unfolding vals by simp
qed

text \<open>
  C2. The letters and digits have the values stated, but not every character outside the
  alphabet is a fatal error. The loop of \<open>collect_data\<close> is
  \<open>while ((c = fgetc(yyin)))\<close>, so a NUL character in the data ends the loop before the
  test for a bad character is reached: the segment \<open>01\<close> followed by NUL is collected as the
  two bytes 0 and 1, as if the NUL were the closing brace, where any other character that
  is neither a letter, a digit nor white space (here \<open>-\<close>) gives
  \<open>bad character in IDAT block\<close>. A whole text whose image data end in a NUL character,
  with no closing brace at all, is compiled to the end.
\<close>

theorem NUL_ends_dense_segment:
  "map_sum id (\<lambda>(nbits, bits, s'). (nbits, take nbits bits, yyin s'))
     (collect_data E True (s\<lparr>yyin := ''01'' @ NUL # rest\<rparr>)) = Inr (2, [0, 1], rest)
   \<and> collect_data E True (s\<lparr>yyin := ''01'' @ CHR ''-'' # rest\<rparr>)
       = Inl (Fatal (linenum s) ''bad character in IDAT block'')
   \<and> map_sum id out
       (pngc (libpng_accepts\<lparr>abi := M\<rparr>)
          (''IHDR { height 1 width 1 palette color } PLTE { (0, 0, 0) } IMAGE { 0'' @ [NUL]))
       = Inr [Set_PLTE [(0, 0, 0)],
              Write_info (initial_info\<lparr>width := 1, height := 1, bit_depth := 8,
                                       color_type := 3, num_palette := 1\<rparr>),
              Set_packing, Write_image [0],
              Write_end (initial_info\<lparr>width := 1, height := 1, bit_depth := 8,
                                      color_type := 3, num_palette := 1\<rparr>)]"
proof (intro conjI)
  show "map_sum id (\<lambda>(nbits, bits, s'). (nbits, take nbits bits, yyin s'))
     (collect_data E True (s\<lparr>yyin := ''01'' @ NUL # rest\<rparr>)) = Inr (2, [0, 1], rest)"
    by (simp add: collect_data_def MEMORY_QUANTUM_def dense_value_def ctype_defs Let_def
          take_Suc_conv_app_nth numeral_2_eq_2)
  show "collect_data E True (s\<lparr>yyin := ''01'' @ CHR ''-'' # rest\<rparr>)
       = Inl (Fatal (linenum s) ''bad character in IDAT block'')"
    by (simp add: collect_data_def MEMORY_QUANTUM_def dense_value_def ctype_defs Let_def)
  show "map_sum id out
       (pngc (libpng_accepts\<lparr>abi := M\<rparr>)
          (''IHDR { height 1 width 1 palette color } PLTE { (0, 0, 0) } IMAGE { 0'' @ [NUL]))
       = Inr [Set_PLTE [(0, 0, 0)],
              Write_info (initial_info\<lparr>width := 1, height := 1, bit_depth := 8,
                                       color_type := 3, num_palette := 1\<rparr>),
              Set_packing, Write_image [0],
              Write_end (initial_info\<lparr>width := 1, height := 1, bit_depth := 8,
                                      color_type := 3, num_palette := 1\<rparr>)]"
    by (cases M)
       (simp_all add: lex_eval run_eval number_eval libpng_accepts_def take_Suc_conv_app_nth)
qed

subsection \<open>The hex format\<close>

text \<open>
  C1. The hex digits \<open>00FF0A\<close> are not packed two by two, high nibble first, into the
  bytes \<open>00 FF 0A\<close>: the test of \<open>ocount\<close> takes the branches the wrong way round, so
  the first digit is or-ed alone into the first byte of the fresh block and every later
  pair straddles two digits of the text. The chunk compiler hands libpng the three bytes
  \<open>fresh 0 OR 00\<close>, \<open>0F\<close>, \<open>F0\<close>, with or without white space between the digits.
\<close>

theorem hex_digits_00FF0A:
  "compile_IDAT E (s\<lparr>yyin := ''00FF0A}''\<rparr>)
     = png E (Write_chunk ''IDAT'' [fresh E 0 OR 0x00, 0x0F, 0xF0]) (s\<lparr>yyin := []\<rparr>)
   \<and> compile_IDAT E (s\<lparr>yyin := ''00 FF 0A}''\<rparr>)
     = png E (Write_chunk ''IDAT'' [fresh E 0 OR 0x00, 0x0F, 0xF0]) (s\<lparr>yyin := []\<rparr>)"
  by (simp add: compile_IDAT_def collect_data_def MEMORY_QUANTUM_def hex_value_def ctype_defs
        Let_def take_Suc_conv_app_nth numeral_3_eq_3)

lemma hex_value_Some: "isxdigit c \<Longrightarrow> \<exists>v. hex_value c = Some v"
  by (simp add: hex_value_def)

lemma isxdigit_plain: "isxdigit c \<Longrightarrow> c \<noteq> NUL \<and> c \<noteq> CHR ''}'' \<and> \<not> isspace c"
  by (auto simp: ctype_defs)

lemma isspace_plain: "isspace c \<Longrightarrow> c \<noteq> NUL \<and> c \<noteq> CHR ''}'' \<and> \<not> isxdigit c"
  by (auto simp: ctype_defs)

lemma hex_collect_returns:
  assumes "\<forall>c\<in>set ds. isxdigit c \<or> isspace c"
      and "nbits + (length (filter isxdigit ds) + (if even ocount then 2 else 1)) div 2
             \<le> length bits"
      and "length bits \<le> quanta * MEMORY_QUANTUM"
  shows "\<exists>nbits' bits'.
           collect_loop E False l bits quanta nbits ocount (ds @ CHR ''}'' # rest)
             = Inr (nbits', bits', rest)"
  using assms
proof (induction ds arbitrary: bits nbits ocount)
  case Nil
  then show ?case by (simp add: NUL_def)
next
  case (Cons c ds)
  show ?case
  proof (cases "isspace c")
    case True
    then have p: "c \<noteq> NUL" "c \<noteq> CHR ''}''" "\<not> isxdigit c"
      by (auto dest: isspace_plain)
    from Cons.prems p have
      "\<exists>nbits' bits'. collect_loop E False l bits quanta nbits ocount (ds @ CHR ''}'' # rest)
          = Inr (nbits', bits', rest)"
      by (intro Cons.IH) auto
    with True p show ?thesis by simp
  next
    case False
    with Cons.prems have x: "isxdigit c" by simp
    then have p: "c \<noteq> NUL" "c \<noteq> CHR ''}''" "\<not> isspace c"
      by (auto dest: isxdigit_plain)
    from x obtain v where v: "hex_value c = Some v"
      by (auto dest: hex_value_Some)
    let ?k = "length (filter isxdigit ds)"
    from Cons.prems(2) x have
      bound: "nbits + (Suc ?k + (if even ocount then 2 else 1)) div 2 \<le> length bits"
      by simp
    then have inb: "nbits < length bits" by (auto split: if_splits)
    with Cons.prems(3) have nogrow: "\<not> quanta * MEMORY_QUANTUM < nbits" by simp
    show ?thesis
    proof (cases "even ocount")
      case True
      from bound True have "nbits + 1 + (?k + (if even (ocount + 1) then 2 else 1)) div 2
          \<le> length (bits[nbits := bits ! nbits OR v])"
        by simp
      with Cons.prems have
        "\<exists>nbits' bits'. collect_loop E False l (bits[nbits := bits ! nbits OR v]) quanta
            (nbits + 1) (ocount + 1) (ds @ CHR ''}'' # rest) = Inr (nbits', bits', rest)"
        by (intro Cons.IH) auto
      with p v inb nogrow True show ?thesis
        by (simp add: Let_def even_iff_mod_2_eq_zero)
    next
      case False
      from bound False have "nbits + (?k + (if even (ocount + 1) then 2 else 1)) div 2
          \<le> length (bits[nbits := v * 16])"
        by simp
      with Cons.prems have
        "\<exists>nbits' bits'. collect_loop E False l (bits[nbits := v * 16]) quanta
            nbits (ocount + 1) (ds @ CHR ''}'' # rest) = Inr (nbits', bits', rest)"
        by (intro Cons.IH) auto
      with p v inb nogrow False show ?thesis
        by (simp add: Let_def even_iff_mod_2_eq_zero)
    qed
  qed
qed

text \<open>
  C8 (amended). In the hex format the number of digits is not checked: a segment of hex
  digits and white space with at most 2047 digits, closed by a brace, is collected
  whether the number of its digits is even or odd.
\<close>

theorem odd_hex_count_collected:
  assumes "\<forall>c\<in>set ds. isxdigit c \<or> isspace c"
      and "length (filter isxdigit ds) \<le> 2047"
  shows "\<exists>nbits bits.
           collect_data E False (s\<lparr>yyin := ds @ CHR ''}'' # rest\<rparr>)
             = Inr (nbits, bits, s\<lparr>yyin := rest\<rparr>)"
proof -
  from assms(2) have
    "0 + (length (filter isxdigit ds) + (if even (0::nat) then 2 else 1)) div 2
       \<le> length (xalloc E MEMORY_QUANTUM)"
    by (simp add: MEMORY_QUANTUM_def)
  moreover have "length (xalloc E MEMORY_QUANTUM) \<le> 1 * MEMORY_QUANTUM" by simp
  ultimately obtain nbits bits where
    "collect_loop E False (linenum s) (xalloc E MEMORY_QUANTUM) 1 0 0 (ds @ CHR ''}'' # rest)
       = Inr (nbits, bits, rest)"
    using hex_collect_returns
            [OF assms(1), where nbits = 0 and ocount = 0 and bits = "xalloc E MEMORY_QUANTUM"
               and quanta = 1 and E = E and l = "linenum s" and rest = rest]
    by blast
  then show ?thesis by (simp add: collect_data_def)
qed

theorem odd_hex_count_collected_witness:
  "list_all (\<lambda>c. isxdigit c \<or> isspace c) ''ABC''
   \<and> odd (length (filter isxdigit ''ABC'')) \<and> length (filter isxdigit ''ABC'') \<le> 2047
   \<and> (\<exists>nbits bits. collect_data libpng_accepts False (initial_state ''ABC}'')
          = Inr (nbits, bits, initial_state []))"
proof -
  have d: "\<forall>c\<in>set ''ABC''. isxdigit c \<or> isspace c" by (simp add: ctype_defs)
  have n: "length (filter isxdigit ''ABC'') \<le> 2047" by (simp add: ctype_defs)
  have "(initial_state ''ABC}'') = (initial_state [])\<lparr>yyin := ''ABC'' @ CHR ''}'' # []\<rparr>"
    by (simp add: initial_state_def)
  moreover have "(initial_state [])\<lparr>yyin := []\<rparr> = initial_state []"
    by (simp add: initial_state_def)
  ultimately show ?thesis
    using odd_hex_count_collected
            [OF d n, where E = libpng_accepts and s = "initial_state []" and rest = "[]"] d n
    by (simp add: ctype_defs)
qed

text \<open>
  C8 as stated fails: the three digits \<open>ABC\<close> are collected as the two bytes \<open>0A BC\<close>.
\<close>

theorem odd_hex_count_counterexample:
  "map_sum id (\<lambda>(nbits, bits, s). (nbits, take nbits bits))
     (collect_data libpng_accepts False (initial_state ''ABC}'')) = Inr (2, [0x0A, 0xBC])"
  by (simp add: collect_data_def MEMORY_QUANTUM_def hex_value_def ctype_defs Let_def
        initial_state_def libpng_accepts_def take_Suc_conv_app_nth numeral_2_eq_2)

subsection \<open>Numbers in the header and in the palette\<close>

text \<open>
  What does hold of the numbers: a stored height or width is not zero, an accepted byte
  is the value that \<open>strtoul\<close> read from the whole token and is at most 255, and a
  palette has as many entries as \<open>num_palette\<close> says, at most 256.
\<close>

text \<open>
  A value that \<open>strtoul\<close> returns, and so a height or a width that is stored, fits
  in an \<open>unsigned long\<close> of the data model.
\<close>

lemma strtoul_bound: "fst (strtoul M nptr) \<le> ULONG_MAX M"
proof -
  have "(ULONG_MAX M + 1 - v) mod (ULONG_MAX M + 1) \<le> ULONG_MAX M" for v
    using mod_less_divisor [of "ULONG_MAX M + 1" "ULONG_MAX M + 1 - v"] by simp
  then show ?thesis
    by (auto simp: strtoul_def Let_def split: prod.splits)
qed

lemma long_numeric_bound: "long_numeric M ok s = Inr v \<Longrightarrow> v < 2 ^ ulong_bits M"
proof -
  assume "long_numeric M ok s = Inr v"
  then have "v = fst (strtoul M (token s))"
    by (auto simp: long_numeric_def fatal_def split: prod.splits if_splits)
  with strtoul_bound [of M "token s"] have "v \<le> 2 ^ ulong_bits M - 1"
    by (simp add: ULONG_MAX_def)
  moreover have "(0::nat) < 2 ^ ulong_bits M" by simp
  ultimately show ?thesis by arith
qed

lemma compile_IHDR_nonzero:
  "compile_IHDR M s = Inr s' \<Longrightarrow> height (info s') \<noteq> 0 \<and> width (info s') \<noteq> 0"
  by (auto simp: compile_IHDR_def fatal_def split: sum.splits if_splits)

lemma long_numeric_accepts:
  "long_numeric M ok s = Inr v \<longleftrightarrow>
     ok \<and> snd (strtoul M (token s)) = [] \<and> fst (strtoul M (token s)) \<noteq> 2147483647
     \<and> v = fst (strtoul M (token s))"
  by (auto simp: long_numeric_def fatal_def split: prod.splits)

lemma byte_numeric_accepts:
  "byte_numeric M ok s = Inr v \<longleftrightarrow>
     ok \<and> snd (strtoul M (token s)) = [] \<and> fst (strtoul M (token s)) \<le> 255
     \<and> v = of_nat (fst (strtoul M (token s)))"
  by (auto simp: byte_numeric_def fatal_def split: prod.splits)

lemma PLTE_entry_length:
  "PLTE_entry M palette ncolors s = Inr (palette', s') \<Longrightarrow>
     ncolors < length palette \<and> length palette' = length palette
     \<and> take ncolors palette' = take ncolors palette"
  by (auto simp: PLTE_entry_def fatal_def split: if_splits sum.splits prod.splits)

lemma compile_PLTE_loop_entries:
  "compile_PLTE_loop M palette ncolors s = Inr (palette', ncolors', s') \<Longrightarrow>
     ncolors \<le> length palette \<Longrightarrow>
     ncolors \<le> ncolors' \<and> ncolors' \<le> length palette \<and> length palette' = length palette
     \<and> take ncolors palette' = take ncolors palette"
proof (induction M palette ncolors s rule: compile_PLTE_loop.induct)
  case (1 M palette ncolors s)
  from "1.prems"(1) obtain inner s1 where g: "get_inner_token s = Inr (inner, s1)"
    by (subst (asm) compile_PLTE_loop.simps) (auto split: sum.splits)
  show ?case
  proof (cases inner)
    case False
    with "1.prems" g show ?thesis
      by (subst (asm) compile_PLTE_loop.simps) simp
  next
    case True
    with "1.prems"(1) g obtain p2 s2 where t: "PLTE_entry M palette ncolors s1 = Inr (p2, s2)"
      and r: "compile_PLTE_loop M p2 (ncolors + 1) s2 = Inr (palette', ncolors', s')"
      by (subst (asm) compile_PLTE_loop.simps) (auto split: sum.splits)
    from t have e: "ncolors < length palette" "length p2 = length palette"
      "take ncolors p2 = take ncolors palette"
      by (auto dest: PLTE_entry_length)
    then have "ncolors + 1 \<le> length p2" by simp
    with "1.IH" [OF g refl _ t refl r] True have
      i: "ncolors + 1 \<le> ncolors'" "ncolors' \<le> length p2" "length palette' = length p2"
      "take (ncolors + 1) palette' = take (ncolors + 1) p2"
      by auto
    from i(4) have "take ncolors (take (ncolors + 1) palette') = take ncolors (take (ncolors + 1) p2)"
      by simp
    then have "take ncolors palette' = take ncolors p2" by (simp add: min_def)
    with e i show ?thesis by simp
  qed
qed

lemma compile_PLTE_entries:
  assumes "compile_PLTE E s = Inr s'"
  shows "\<exists>p. out s' = out s @ [Set_PLTE p] \<and> length p = num_palette (info s')
             \<and> length p \<le> 256"
proof -
  from assms obtain palette ncolors s1 where
    l: "compile_PLTE_loop (abi E) (replicate 256 (0, 0, 0)) 0 s = Inr (palette, ncolors, s1)"
    and p: "png E (Set_PLTE (take ncolors palette))
              (s1\<lparr>info := (info s1)\<lparr>num_palette := ncolors\<rparr>\<rparr>) = Inr s'"
    by (auto simp: compile_PLTE_def split: sum.splits prod.splits)
  from compile_PLTE_loop_entries [OF l] have "ncolors \<le> 256" "length palette = 256"
    by auto
  moreover from l have "out s1 = out s" by (auto dest: compile_PLTE_loop_frame)
  moreover from p have "out s' = out s1 @ [Set_PLTE (take ncolors palette)]"
    "num_palette (info s') = ncolors"
    by (auto dest: png_frame)
  ultimately show ?thesis by simp
qed

text \<open>
  The array \<open>palette\<close> has no room for a 257th entry: when the entry starts with a
  channel that \<open>byte_numeric\<close> accepts, the store goes past the end of the array.
\<close>

lemma PLTE_entry_overflow:
  assumes "token_equals ''('' s1" and "get_token s1 = Inr (ok, s2)"
      and "byte_numeric M ok s2 = Inr r" and "length palette \<le> ncolors"
  shows "PLTE_entry M palette ncolors s1 = Inl (Undefined ''write past the end of palette'')"
  using assms by (simp add: PLTE_entry_def)

text \<open>
  C7. \<open>long_numeric\<close> refuses the value \<open>2^31 - 1\<close> alone (it compares with \<open>==\<close>),
  so a height of \<open>2^31 = 2147483648\<close>, outside the range \<open>0..2^31-1\<close> that its comment
  gives, is accepted and stored.
\<close>

theorem height_2147483648_accepted:
  "map_sum id (\<lambda>s. (height (info s), width (info s)))
     (pngc (libpng_accepts\<lparr>abi := M\<rparr>) ''IHDR { height 2147483648 width 1 } IDAT { }'')
   = Inr (2147483648, 1)"
  by (cases M) (simp_all add: lex_eval run_eval number_eval libpng_accepts_def)

text \<open>
  C5. \<open>byte_numeric\<close> tests only that \<open>strtoul\<close> stopped at the end of the token, not
  that it read a digit: the empty token (written as an empty quoted string) is not a
  number, and it is accepted as the channel value 0.
\<close>

theorem empty_channel_accepted:
  \<open>map_sum id (\<lambda>s. hd (out s))
     (pngc (libpng_accepts\<lparr>abi := M\<rparr>)
        ''IHDR { height 1 width 1 palette color } PLTE { ("", 0, 0) } IMAGE { 0 }'')
   = Inr (Set_PLTE [(0, 0, 0)])\<close>
  by (cases M) (simp_all add: lex_eval run_eval number_eval libpng_accepts_def)

subsection \<open>The header chunk\<close>

text \<open>
  C3. The test for "IHDR chunk must come first" is made only when an IHDR chunk is read.
  A text whose first and only chunk is a raw pixel-data chunk never reaches it: whatever
  libpng does, the compile does not end in a call of \<open>fatal\<close>, and when libpng accepts
  its calls the compile ends normally, without any header.
\<close>

theorem header_first_not_enforced:
  "pngc E ''IDAT { }'' \<noteq> Inl (Fatal l m)
   \<and> map_sum id out (pngc libpng_accepts ''IDAT { }'')
       = Inr [Write_info initial_info, Write_chunk ''IDAT'' [], Write_end initial_info]"
  by (simp add: lex_eval run_eval libpng_accepts_def)

text \<open>An IHDR chunk after another chunk is refused, as its message says.\<close>

lemma header_after_other_chunk:
  assumes "token s = ''IHDR''" and "get_token s = Inr (True, s1)" and "token s1 = ''{''"
      and "count s IHDR = 0" and "prevchunk s \<noteq> None"
  shows "pngc_chunk E s = Inl (Fatal (linenum s1) ''IHDR chunk must come first'')"
proof -
  have "find_chunk ''IHDR'' properties 0 = Some IHDR"
    by (simp add: properties_def IHDR_def)
  moreover from assms(2) have "counts s1 = counts s" "prevchunk s1 = prevchunk s"
    by (auto dest: get_token_frame)
  ultimately show ?thesis
    using assms
    by (simp add: pngc_chunk_def token_equals_def compile_chunk_def fatal_def count_def)
qed

subsection \<open>The size of a whole image\<close>

lemma png_not_Fatal: "png E c s \<noteq> Inl (Fatal l m)"
  by (simp add: png_def)

lemma collect_data_info:
  "collect_data E pixperchar s = Inr (nbits, bits, s1) \<Longrightarrow> info s1 = info s \<and> linenum s1 = linenum s"
  by (auto simp: collect_data_def split: sum.splits)

text \<open>
  The size test, once the data of the image have been collected: the compile fails with
  the message about the size exactly when the number of collected bytes differs from
  \<open>width * height * (sample_size div 8)\<close>, both taken as \<open>unsigned long\<close>.
\<close>

lemma compile_IMAGE_size_test:
  assumes "sample_size (info s) = Some sz"
      and "collect_data E (sample_per_char (info s) sz) s = Inr (nbits, bits, s1)"
  shows "(\<exists>l. compile_IMAGE E s
               = Inl (Fatal l (''size of IMAGE doesn'' @ [CHR 0x27] @ ''t match height * width in IHDR'')))
         \<longleftrightarrow> nbits mod 2 ^ ulong_bits (abi E)
               \<noteq> (width (info s) * height (info s) * (sz div 8)) mod 2 ^ ulong_bits (abi E)"
proof (cases "nbits mod 2 ^ ulong_bits (abi E)
                = (width (info s) * height (info s) * (sz div 8)) mod 2 ^ ulong_bits (abi E)")
  case True
  have "info s1 = info s" using assms(2) by (simp add: collect_data_info)
  with True assms have "compile_IMAGE E s =
      (case png E Set_packing s1 of
         Inl e \<Rightarrow> Inl e
       | Inr s2 \<Rightarrow> png E (Write_image (take nbits bits)) s2)"
    by (simp add: compile_IMAGE_def image_size_def)
  then have "compile_IMAGE E s \<noteq> Inl (Fatal l m)" for l m
    by (auto simp: png_not_Fatal split: sum.splits)
  with True show ?thesis by simp
next
  case False
  have "info s1 = info s" using assms(2) by (simp add: collect_data_info)
  with False assms show ?thesis
    by (auto simp: compile_IMAGE_def image_size_def fatal_def)
qed

text \<open>
  For samples of fewer than 8 bits the factor \<open>sample_size / 8\<close> is 0, whatever the
  width and the height are: the test passes only when no byte at all was collected
  (or a multiple of \<open>2 ^ ulong_bits\<close> of them).
\<close>

lemma small_samples_want_no_data:
  assumes "sample_size (info s) = Some sz" and "sz < 8"
      and "collect_data E (sample_per_char (info s) sz) s = Inr (nbits, bits, s1)"
  shows "(\<exists>l. compile_IMAGE E s
               = Inl (Fatal l (''size of IMAGE doesn'' @ [CHR 0x27] @ ''t match height * width in IHDR'')))
         \<longleftrightarrow> nbits mod 2 ^ ulong_bits (abi E) \<noteq> 0"
  using compile_IMAGE_size_test [OF assms(1,3)] assms(2) by simp

text \<open>
  C4. The size test does not compare the number of decoded bytes with
  \<open>width * height * sample_size / 8\<close>: it divides the sample size alone by 8, in
  integers, so for a bit depth below 8 it compares with 0. For a grey image of 2 by 2
  samples of 4 bits, which takes \<open>2 * 2 * 4 / 8 = 2\<close> bytes, an \<open>IMAGE\<close> without any
  data is compiled to the end; with two data bytes, and with the four samples that the
  comment of \<open>compile_IMAGE\<close> (one character per sample for a bit depth of 4 or less) and
  the message (height * width) ask for, the compile fails with the message about the
  size.
\<close>

theorem image_size_truncated:
  "map_sum id out
     (pngc (libpng_accepts\<lparr>abi := M\<rparr>) ''IHDR { height 2 width 2 bitdepth 4 } IMAGE { }'')
     = Inr [Write_info (initial_info\<lparr>width := 2, height := 2, bit_depth := 4\<rparr>),
            Set_packing, Write_image [],
            Write_end (initial_info\<lparr>width := 2, height := 2, bit_depth := 4\<rparr>)]
   \<and> pngc (libpng_accepts\<lparr>abi := M\<rparr>) ''IHDR { height 2 width 2 bitdepth 4 } IMAGE { 01 }''
       = Inl (Fatal 0 (''size of IMAGE doesn'' @ [CHR 0x27] @ ''t match height * width in IHDR''))
   \<and> pngc (libpng_accepts\<lparr>abi := M\<rparr>) ''IHDR { height 2 width 2 bitdepth 4 } IMAGE { 0123 }''
       = Inl (Fatal 0 (''size of IMAGE doesn'' @ [CHR 0x27] @ ''t match height * width in IHDR''))"
  by (cases M) (simp_all add: lex_eval run_eval number_eval libpng_accepts_def)

subsection \<open>Raw pixel-data chunks\<close>

text \<open>After a chunk has been compiled, \<open>prevchunk\<close> is set.\<close>

lemma pngc_chunk_sets_prevchunk: "pngc_chunk E s = Inr s' \<Longrightarrow> prevchunk s' \<noteq> None"
  by (erule pngc_chunk_Inr) simp

text \<open>
  What a raw pixel-data chunk hands to libpng: one chunk named \<open>IDAT\<close> that holds the
  bytes that \<open>collect_data\<close> has collected from the data segment in the hex format.
\<close>

lemma compile_IDAT_Inr:
  assumes "compile_IDAT E s = Inr s'"
  shows "\<exists>nbits bits s1. collect_data E False s = Inr (nbits, bits, s1)
           \<and> out s' = out s @ [Write_chunk ''IDAT'' (take nbits bits)]"
proof -
  from assms obtain nbits bits s1 where c: "collect_data E False s = Inr (nbits, bits, s1)"
    and p: "png E (Write_chunk ''IDAT'' (take nbits bits)) s1 = Inr s'"
    by (auto simp: compile_IDAT_def split: sum.splits prod.splits)
  from c have "out s1 = out s" by (auto dest: collect_data_frame)
  moreover from p have "out s' = out s1 @ [Write_chunk ''IDAT'' (take nbits bits)]"
    by (auto dest: png_frame)
  ultimately show ?thesis using c by simp
qed

text \<open>
  C6 (amended). After a raw pixel-data chunk, a chunk of any other type makes the compile
  fail at that chunk, with an error that is not the one about contiguous IDAT chunks. A
  further raw pixel-data chunk is compiled only when the previous chunk was one too; the
  bytes that \<open>collect_data\<close> collects from its data segment, after the opening brace,
  are then handed to libpng as one \<open>IDAT\<close> chunk, after all the calls made before.
\<close>

theorem raw_pixel_chunks_contiguous:
  assumes "count s IDAT \<noteq> 0" and "prevchunk s \<noteq> None"
  shows "(token s \<noteq> ''IDAT'' \<longrightarrow>
            (\<exists>e. pngc_chunk E s = Inl e
                 \<and> (\<forall>l. e \<noteq> Fatal l ''IDAT chunks must be contiguous'')))
       \<and> (\<forall>s'. pngc_chunk E s = Inr s' \<longrightarrow>
            token s = ''IDAT'' \<and> prevchunk s = Some IDAT
            \<and> (\<exists>s1 nbits bits s2.
                  get_token s = Inr (True, s1) \<and> token s1 = ''{''
                  \<and> collect_data E False s1 = Inr (nbits, bits, s2)
                  \<and> out s' = out s @ [Write_chunk ''IDAT'' (take nbits bits)]))"
proof -
  have other: "\<exists>e. pngc_chunk E s = Inl e \<and> (\<forall>l. e \<noteq> Fatal l ''IDAT chunks must be contiguous'')"
    if t: "token s \<noteq> ''IDAT''"
  proof (cases "find_chunk (token s) properties 0")
    case None
    then show ?thesis by (simp add: pngc_chunk_def fatal_def)
  next
    case (Some pp)
    with t have pp: "pp < 26" "pp \<noteq> IDAT"
      by (auto dest: find_chunk_properties)
    show ?thesis
    proof (cases "get_token s")
      case (Inl e)
      with Some have "pngc_chunk E s = Inl e" by (simp add: pngc_chunk_def)
      moreover from Inl have "e \<noteq> Fatal l ''IDAT chunks must be contiguous''" for l
        by (auto dest!: get_token_error)
      ultimately show ?thesis by blast
    next
      case (Inr r)
      then obtain ok s1 where g: "get_token s = Inr (ok, s1)" by (cases r) auto
      then have "count s1 IDAT \<noteq> 0" "prevchunk s1 \<noteq> None"
        using assms by (auto simp: count_def dest: get_token_frame)
      from compile_chunk_after_pixels [OF this pp, of E] obtain m where
        "compile_chunk E pp s1 = Inl (Fatal (linenum s1) m)"
        "m \<noteq> ''IDAT chunks must be contiguous''" by blast
      with Some g show ?thesis
        by (auto simp: pngc_chunk_def fatal_def)
    qed
  qed
  have pixels: "token s = ''IDAT'' \<and> prevchunk s = Some IDAT
                \<and> (\<exists>s1 nbits bits s2.
                      get_token s = Inr (True, s1) \<and> token s1 = ''{''
                      \<and> collect_data E False s1 = Inr (nbits, bits, s2)
                      \<and> out s' = out s @ [Write_chunk ''IDAT'' (take nbits bits)])"
    if r: "pngc_chunk E s = Inr s'" for s'
  proof -
    from other r have t: "token s = ''IDAT''" by auto
    from r obtain pp s1 s2 where f: "find_chunk (token s) properties 0 = Some pp"
      and g: "get_token s = Inr (True, s1)" and c: "compile_chunk E pp s1 = Inr s2"
      and s': "s' = s2\<lparr>prevchunk := Some pp, counts := (counts s2)(pp := count s2 pp + 1)\<rparr>"
      by (rule pngc_chunk_Inr)
    from r f g have b: "token s1 = ''{''"
      by (auto simp: pngc_chunk_def fatal_def token_equals_def split: if_splits)
    from f t have pp: "pp = IDAT" by (auto dest: find_chunk_properties)
    from g have fr: "counts s1 = counts s" "prevchunk s1 = prevchunk s" "out s1 = out s"
      by (auto dest: get_token_frame)
    with assms have n: "count s1 IDAT \<noteq> 0" by (simp add: count_def)
    with c pp have p: "prevchunk s1 = Some IDAT" and i: "compile_IDAT E s1 = Inr s2"
      by (auto simp: compile_chunk_def fatal_def chunk_ids split: if_splits)
    from compile_IDAT_Inr [OF i] obtain nbits bits s3 where
      "collect_data E False s1 = Inr (nbits, bits, s3)"
      "out s2 = out s1 @ [Write_chunk ''IDAT'' (take nbits bits)]"
      by blast
    with s' fr p t g b show ?thesis by auto
  qed
  from other pixels show ?thesis by blast
qed

theorem raw_pixel_chunks_contiguous_witness:
  "count (after_pixels ''tIME'' ''{ } IDAT { 00 }'') IDAT \<noteq> 0
   \<and> prevchunk (after_pixels ''tIME'' ''{ } IDAT { 00 }'') \<noteq> None
   \<and> token (after_pixels ''tIME'' ''{ } IDAT { 00 }'') \<noteq> ''IDAT''
   \<and> (\<exists>e. pngc_chunk libpng_accepts (after_pixels ''tIME'' ''{ } IDAT { 00 }'') = Inl e
          \<and> (\<forall>l. e \<noteq> Fatal l ''IDAT chunks must be contiguous''))
   \<and> count (after_pixels ''IDAT'' ''{ 0A }'') IDAT \<noteq> 0
   \<and> prevchunk (after_pixels ''IDAT'' ''{ 0A }'') = Some IDAT
   \<and> token (after_pixels ''IDAT'' ''{ 0A }'') = ''IDAT''
   \<and> map_sum id out (pngc_chunk libpng_accepts (after_pixels ''IDAT'' ''{ 0A }''))
       = Inr (out (after_pixels ''IDAT'' ''{ 0A }'') @ [Write_chunk ''IDAT'' [0x00]])"
proof -
  let ?s = "after_pixels ''tIME'' ''{ } IDAT { 00 }''"
  let ?p = "after_pixels ''IDAT'' ''{ 0A }''"
  have h: "count ?s IDAT \<noteq> 0" "prevchunk ?s \<noteq> None"
    by (simp_all add: after_pixels_def count_def initial_state_def)
  have h2: "count ?p IDAT \<noteq> 0" "prevchunk ?p \<noteq> None" "prevchunk ?p = Some IDAT"
    by (simp_all add: after_pixels_def count_def initial_state_def)
  have t: "token ?s \<noteq> ''IDAT''"
    by (simp add: after_pixels_def token_def cstr_def initial_state_def token_buffer_size_def)
  have t2: "token ?p = ''IDAT''"
    by (simp add: after_pixels_def token_def cstr_def initial_state_def token_buffer_size_def
          replicate_numeral NUL_def)
  from raw_pixel_chunks_contiguous [OF h, of libpng_accepts] t have e:
    "\<exists>e. pngc_chunk libpng_accepts ?s = Inl e
         \<and> (\<forall>l. e \<noteq> Fatal l ''IDAT chunks must be contiguous'')"
    by blast
  obtain s' where r: "pngc_chunk libpng_accepts ?p = Inr s'"
    by (simp add: after_pixels_def lex_eval run_eval libpng_accepts_def)
  with raw_pixel_chunks_contiguous [OF h2(1,2), of libpng_accepts]
  obtain s1 nbits bits s2 where g: "get_token ?p = Inr (True, s1)"
    and c: "collect_data libpng_accepts False s1 = Inr (nbits, bits, s2)"
    and o: "out s' = out ?p @ [Write_chunk ''IDAT'' (take nbits bits)]"
    by blast
  from g have y: "yyin s1 = '' 0A }''"
    by (auto simp add: after_pixels_def lex_eval initial_state_def)
  from c have "take nbits bits = [0x00]"
    unfolding collect_data_def y
    by (auto simp add: MEMORY_QUANTUM_def hex_value_def ctype_defs
          Let_def libpng_accepts_def take_Suc_conv_app_nth)
  with o r have "map_sum id out (pngc_chunk libpng_accepts ?p)
       = Inr (out ?p @ [Write_chunk ''IDAT'' [0x00]])" by simp
  with h h2 t t2 e show ?thesis by simp
qed

text \<open>
  C6 as stated fails: between two raw pixel-data chunks a \<open>tIME\<close> chunk ends the compile
  with the message that the chunk type is not handled, not with a contiguity error.
\<close>

theorem raw_pixel_chunks_counterexample:
  "pngc libpng_accepts ''IHDR { height 1 width 1 } IDAT { 00 } tIME { } IDAT { 00 }''
     = Inl (Fatal 0 ''FIXME: tIME chunk type is not handled yet'')"
  by (simp add: lex_eval run_eval number_eval libpng_accepts_def)

subsection \<open>The end of the input\<close>








subsection \<open>Unknown chunk names\<close>

lemma find_chunk_None: "find_chunk t ps i = None \<longleftrightarrow> (\<forall>p\<in>set ps. t \<noteq> fst p)"
  by (induction ps arbitrary: i) auto

text \<open>
  C10 (amended). A chunk keyword that is the name of no entry of the table ends the
  compile in \<open>fatal\<close> with the fixed message \<open>unknown chunk type\<close> and the current line
  number; the text of the token is not part of the diagnostic.
\<close>

theorem unknown_chunk_type:
  assumes "get_token s = Inr (True, s1)"
      and "\<forall>p\<in>set properties. token s1 \<noteq> fst p"
  shows "pngc_loop E s = Inl (Fatal (linenum s1) ''unknown chunk type'')"
proof -
  from assms(2) have "find_chunk (token s1) properties 0 = None"
    by (simp add: find_chunk_None)
  then have "pngc_chunk E s1 = Inl (Fatal (linenum s1) ''unknown chunk type'')"
    by (simp add: pngc_chunk_def fatal_def)
  with assms(1) show ?thesis
    by (subst pngc_loop.simps) simp
qed

theorem unknown_chunk_type_witness:
  "pngc_loop libpng_accepts (initial_state ''bogus { }'')
     = Inl (Fatal 0 ''unknown chunk type'')"
proof -
  let ?s1 = "(initial_state ''{ }'')\<lparr>token_buffer := ''bogus'' @ replicate 76 NUL\<rparr>"
  have g: "get_token (initial_state ''bogus { }'') = Inr (True, ?s1)"
    by (simp add: lex_eval initial_state_def)
  have t: "\<forall>p\<in>set properties. token ?s1 \<noteq> fst p"
    by (simp add: properties_def token_def cstr_def NUL_def)
  have "linenum ?s1 = 0" by (simp add: initial_state_def)
  with unknown_chunk_type [OF g t, of libpng_accepts] show ?thesis by simp
qed

text \<open>
  C10 as stated fails: for the keyword \<open>bogus\<close> the line printed is
  \<open>stdin:0: unknown chunk type\<close>, in which \<open>bogus\<close> does not occur.
\<close>

theorem unknown_chunk_type_counterexample:
  "pngc libpng_accepts ''bogus { }'' = Inl (Fatal 0 ''unknown chunk type'')
   \<and> diagnostic ''stdin'' 0 ''unknown chunk type'' = ''stdin:0: unknown chunk type'' @ [newline]
   \<and> \<not> sublist ''bogus'' (diagnostic ''stdin'' 0 ''unknown chunk type'')"
  by (simp add: lex_eval run_eval diagnostic_def decimal.simps sublist_Cons_right prefix_Cons)

end
